theory Spec2Isabelle
  imports Complex_Main "HOL-Library.AList"
begin

section \<open>Common data\<close>

text \<open>
  Python floats are modelled by the type \<open>fl\<close>: a real number, or one of the three
  non-finite values of IEEE arithmetic. Finite arithmetic is exact (no rounding error of
  the binary representation); what the model keeps of the machine is what numpy does
  when it divides by zero, and how the non-finite values compare.
\<close>

datatype fl = Fin real | PInf | NInf | NaN

datatype error =
    ValueError string
  | KeyError string
  | IndexError
  | ProviderError string

text \<open>A narration segment, as the transcriber produces it (a dict with three keys).\<close>

record segment =
  start_time :: real
  end_time :: real
  seg_text :: string

text \<open>A formatted match, the element of the list returned by \<open>SemanticMatcher.match\<close>.\<close>

record insertion =
  start_sec :: real
  duration_sec :: real
  i_broll_id :: string
  confidence :: fl
  reason :: string

subsection \<open>Python's \<open>round(x, ndigits)\<close>\<close>

text \<open>Rounding to the nearest multiple of \<open>10 ^ - ndigits\<close>, halves to the even neighbour.\<close>

definition round_half_even :: "real \<Rightarrow> int" where
  "round_half_even y =
     (let f = \<lfloor>y\<rfloor>; d = y - of_int f
      in if d < 1/2 then f else if 1/2 < d then f + 1 else if even f then f else f + 1)"

definition py_round :: "nat \<Rightarrow> real \<Rightarrow> real" where
  "py_round n x = of_int (round_half_even (x * 10 ^ n)) / 10 ^ n"

text \<open>On a non-finite float \<open>round(x, n)\<close> returns its argument.\<close>

fun fl_round :: "nat \<Rightarrow> fl \<Rightarrow> fl" where
  "fl_round n (Fin r) = Fin (py_round n r)"
| "fl_round n x = x"

subsection \<open>Float comparison and arithmetic\<close>

text \<open>\<open>a >= b\<close> and \<open>a < b\<close> on floats: every comparison with NaN is false.\<close>

fun fl_ge :: "fl \<Rightarrow> fl \<Rightarrow> bool" where
  "fl_ge NaN b = False"
| "fl_ge a NaN = False"
| "fl_ge PInf b = True"
| "fl_ge a NInf = True"
| "fl_ge (Fin a) (Fin b) = (b \<le> a)"
| "fl_ge (Fin a) PInf = False"
| "fl_ge NInf b = False"

fun fl_less :: "fl \<Rightarrow> fl \<Rightarrow> bool" where
  "fl_less NaN b = False"
| "fl_less a NaN = False"
| "fl_less a NInf = False"
| "fl_less NInf b = True"
| "fl_less PInf b = False"
| "fl_less (Fin a) PInf = True"
| "fl_less (Fin a) (Fin b) = (a < b)"

fun fl_add :: "fl \<Rightarrow> fl \<Rightarrow> fl" where
  "fl_add NaN b = NaN"
| "fl_add a NaN = NaN"
| "fl_add PInf NInf = NaN"
| "fl_add NInf PInf = NaN"
| "fl_add PInf b = PInf"
| "fl_add a PInf = PInf"
| "fl_add NInf b = NInf"
| "fl_add a NInf = NInf"
| "fl_add (Fin a) (Fin b) = Fin (a + b)"

definition fl_inf :: "bool \<Rightarrow> fl" where
  "fl_inf positive = (if positive then PInf else NInf)"

fun fl_mul :: "fl \<Rightarrow> fl \<Rightarrow> fl" where
  "fl_mul NaN b = NaN"
| "fl_mul a NaN = NaN"
| "fl_mul (Fin a) (Fin b) = Fin (a * b)"
| "fl_mul (Fin a) PInf = (if a = 0 then NaN else fl_inf (0 < a))"
| "fl_mul (Fin a) NInf = (if a = 0 then NaN else fl_inf (a < 0))"
| "fl_mul PInf (Fin b) = (if b = 0 then NaN else fl_inf (0 < b))"
| "fl_mul NInf (Fin b) = (if b = 0 then NaN else fl_inf (b < 0))"
| "fl_mul PInf PInf = PInf"
| "fl_mul NInf NInf = PInf"
| "fl_mul PInf NInf = NInf"
| "fl_mul NInf PInf = NInf"

text \<open>
  numpy's division of a finite number by a finite number: a zero divisor gives no
  exception (only a warning) but \<open>nan\<close> for \<open>0/0\<close> and a signed infinity otherwise.
\<close>

definition np_div :: "real \<Rightarrow> real \<Rightarrow> fl" where
  "np_div x n =
     (if n \<noteq> 0 then Fin (x / n)
      else if x = 0 then NaN
      else fl_inf (0 < x))"

section \<open>broll_analysis.py: the batch analysis of clip metadata\<close>

text \<open>Clip metadata is whatever the request's JSON holds.\<close>

datatype json =
    JNull
  | JBool bool
  | JNum real
  | JStr string
  | JList "json list"
  | JDict "(string \<times> json) list"

text \<open>
  \<open>_normalize_metadata\<close>: a string is a file path or a JSON text and is loaded (the file
  system and the JSON parser are the parameter \<open>load_json\<close>, which may raise); anything
  that is not a dict after that raises \<open>ValueError\<close>.
\<close>

definition normalize_metadata ::
  "(string \<Rightarrow> error + json) \<Rightarrow> json \<Rightarrow> error + (string \<times> json) list"
where
  "normalize_metadata load_json metadata =
     (case (case metadata of JStr s \<Rightarrow> load_json s | _ \<Rightarrow> Inr metadata) of
        Inl e \<Rightarrow> Inl e
      | Inr (JDict d) \<Rightarrow> Inr d
      | Inr _ \<Rightarrow> Inl (ValueError ''Metadata must be dict, JSON string, or file path''))"

text \<open>
  \<open>analyze_broll\<close>: normalise, then extract the key fields and build the description.
  The last two steps (\<open>_extract_key_fields\<close>, \<open>_build_description\<close>) are the parameter
  \<open>describe\<close>; it may raise as well (for instance \<open>len\<close> of a number).
\<close>

definition analyze_broll ::
  "(string \<Rightarrow> error + json) \<Rightarrow> ((string \<times> json) list \<Rightarrow> error + string) \<Rightarrow>
   string \<Rightarrow> json \<Rightarrow> error + string"
where
  "analyze_broll load_json describe broll_id metadata =
     (case normalize_metadata load_json metadata of
        Inl e \<Rightarrow> Inl e
      | Inr normalized \<Rightarrow> describe normalized)"

definition placeholder :: "string \<Rightarrow> string" where
  "placeholder broll_id = ''B-roll clip '' @ broll_id"

text \<open>
  \<open>analyze_brolls\<close>: the dict \<open>descriptions\<close> is an association list in insertion order;
  \<open>descriptions[broll_id] = d\<close> is \<open>AList.update\<close>. The \<open>try\<close>/\<open>except Exception\<close> is the
  case distinction on the result of \<open>analyze_broll\<close>.
\<close>

definition analyze_brolls_step ::
  "(string \<Rightarrow> error + json) \<Rightarrow> ((string \<times> json) list \<Rightarrow> error + string) \<Rightarrow>
   string \<times> json \<Rightarrow> (string \<times> string) list \<Rightarrow> (string \<times> string) list"
where
  "analyze_brolls_step load_json describe item descriptions =
     (case analyze_broll load_json describe (fst item) (snd item) of
        Inr description \<Rightarrow> AList.update (fst item) description descriptions
      | Inl e \<Rightarrow> AList.update (fst item) (placeholder (fst item)) descriptions)"

definition analyze_brolls ::
  "(string \<Rightarrow> error + json) \<Rightarrow> ((string \<times> json) list \<Rightarrow> error + string) \<Rightarrow>
   (string \<times> json) list \<Rightarrow> (string \<times> string) list"
where
  "analyze_brolls load_json describe broll_metadata =
     fold (analyze_brolls_step load_json describe) broll_metadata []"

section \<open>matcher.py: the Similarity Engine\<close>

definition dot :: "real list \<Rightarrow> real list \<Rightarrow> real" where
  "dot u v = sum_list (map2 (*) u v)"

definition norm2 :: "real list \<Rightarrow> real" where
  "norm2 v = sqrt (sum_list (map (\<lambda>x. x * x) v))"

text \<open>\<open>_cosine_similarity\<close>: the guarded pairwise computation (not called by \<open>match\<close>).\<close>

definition cosine_similarity :: "real list \<Rightarrow> real list \<Rightarrow> fl" where
  "cosine_similarity vec1 vec2 =
     (let dot_product = dot vec1 vec2; norm1 = norm2 vec1; norm2' = norm2 vec2
      in if norm1 = 0 \<or> norm2' = 0 then Fin 0
         else Fin (dot_product / (norm1 * norm2')))"

text \<open>\<open>embeddings / np.linalg.norm(embeddings, axis=1, keepdims=True)\<close>\<close>

definition normalize_rows :: "real list list \<Rightarrow> fl list list" where
  "normalize_rows embeddings = map (\<lambda>v. map (\<lambda>x. np_div x (norm2 v)) v) embeddings"

definition fl_dot :: "fl list \<Rightarrow> fl list \<Rightarrow> fl" where
  "fl_dot u v = foldl fl_add (Fin 0) (map2 fl_mul u v)"

text \<open>
  The two operands are arrays of shape \<open>(n, d)\<close> and \<open>(m, d)\<close>. numpy raises when the
  rows are ragged, when an operand has no row, or when the two dimensions differ; these
  faults are the \<open>ValueError\<close> branch.
\<close>

definition well_shaped :: "real list list \<Rightarrow> real list list \<Rightarrow> bool" where
  "well_shaped A B =
     (A \<noteq> [] \<and> B \<noteq> [] \<and> list_all (\<lambda>v. length v = length (hd A)) (A @ B))"

definition calculate_similarity_matrix ::
  "real list list \<Rightarrow> real list list \<Rightarrow> error + fl list list"
where
  "calculate_similarity_matrix aroll_embeddings broll_embeddings =
     (if \<not> well_shaped aroll_embeddings broll_embeddings
      then Inl (ValueError ''shapes not aligned'')
      else
        let aroll_norm = normalize_rows aroll_embeddings;
            broll_norm = normalize_rows broll_embeddings
        in Inr (map (\<lambda>a. map (\<lambda>b. fl_dot a b) broll_norm) aroll_norm))"

section \<open>matcher.py: the Constrained Selector\<close>

record config =
  similarity_threshold :: real
  min_insertions :: int
  max_insertions :: int

text \<open>A potential match (the dict appended to \<open>potential_matches\<close>).\<close>

record candidate =
  segment_idx :: nat
  broll_id :: string
  similarity :: fl
  m_start_time :: real
  m_end_time :: real
  aroll_text :: string
  broll_description :: string

text \<open>\<open>similarity_matrix[seg_idx, broll_idx]\<close> and \<open>broll_descriptions[broll_id]\<close>.\<close>

definition matrix_at :: "fl list list \<Rightarrow> nat \<Rightarrow> nat \<Rightarrow> error + fl" where
  "matrix_at M i j =
     (if i < length M \<and> j < length (M ! i) then Inr (M ! i ! j) else Inl IndexError)"

definition dict_get :: "(string \<times> string) list \<Rightarrow> string \<Rightarrow> error + string" where
  "dict_get d k = (case map_of d k of None \<Rightarrow> Inl (KeyError k) | Some v \<Rightarrow> Inr v)"

text \<open>The inner loop \<open>for broll_idx, broll_id in enumerate(broll_ids)\<close>.\<close>

fun scan_brolls ::
  "real \<Rightarrow> fl list list \<Rightarrow> (string \<times> string) list \<Rightarrow> nat \<Rightarrow> segment \<Rightarrow>
   (nat \<times> string) list \<Rightarrow> candidate list \<Rightarrow> error + candidate list"
where
  "scan_brolls thr M descs seg_idx seg [] acc = Inr acc"
| "scan_brolls thr M descs seg_idx seg ((broll_idx, bid) # rest) acc =
     (case matrix_at M seg_idx broll_idx of
        Inl e \<Rightarrow> Inl e
      | Inr sim \<Rightarrow>
          if fl_ge sim (Fin thr)
          then (case dict_get descs bid of
                  Inl e \<Rightarrow> Inl e
                | Inr d \<Rightarrow>
                    scan_brolls thr M descs seg_idx seg rest
                      (acc @ [\<lparr>segment_idx = seg_idx, broll_id = bid, similarity = sim,
                               m_start_time = start_time seg, m_end_time = end_time seg,
                               aroll_text = seg_text seg, broll_description = d\<rparr>]))
          else scan_brolls thr M descs seg_idx seg rest acc)"

text \<open>The outer loop \<open>for seg_idx, segment in enumerate(aroll_segments)\<close>.\<close>

fun scan_segments ::
  "real \<Rightarrow> fl list list \<Rightarrow> (string \<times> string) list \<Rightarrow> string list \<Rightarrow>
   (nat \<times> segment) list \<Rightarrow> candidate list \<Rightarrow> error + candidate list"
where
  "scan_segments thr M descs broll_ids [] acc = Inr acc"
| "scan_segments thr M descs broll_ids ((seg_idx, seg) # rest) acc =
     (case scan_brolls thr M descs seg_idx seg (enumerate 0 broll_ids) acc of
        Inl e \<Rightarrow> Inl e
      | Inr acc' \<Rightarrow> scan_segments thr M descs broll_ids rest acc')"

definition potential_matches ::
  "real \<Rightarrow> fl list list \<Rightarrow> segment list \<Rightarrow> string list \<Rightarrow> (string \<times> string) list \<Rightarrow>
   error + candidate list"
where
  "potential_matches thr M aroll_segments broll_ids descs =
     scan_segments thr M descs broll_ids (enumerate 0 aroll_segments) []"

text \<open>
  \<open>potential_matches.sort(key=similarity, reverse=True)\<close>: a stable sort, so candidates
  of equal similarity keep their order of enumeration.
\<close>

fun insert_desc :: "candidate \<Rightarrow> candidate list \<Rightarrow> candidate list" where
  "insert_desc c [] = [c]"
| "insert_desc c (d # ds) =
     (if fl_less (similarity c) (similarity d) then d # insert_desc c ds else c # d # ds)"

definition sort_by_similarity :: "candidate list \<Rightarrow> candidate list" where
  "sort_by_similarity cs = foldr insert_desc cs []"

text \<open>The acceptance state of the two passes.\<close>

record sel_state =
  matches :: "candidate list"
  selected_indices :: "nat set"
  used_brolls :: "string \<rightharpoonup> nat"
  last_insertion_time :: real

definition initial_state :: sel_state where
  "initial_state =
     \<lparr>matches = [], selected_indices = {}, used_brolls = Map.empty, last_insertion_time = - 10\<rparr>"

text \<open>\<open>used_brolls.get(broll_id, 0)\<close>\<close>

definition used_count :: "sel_state \<Rightarrow> string \<Rightarrow> nat" where
  "used_count st bid = (case used_brolls st bid of None \<Rightarrow> 0 | Some n \<Rightarrow> n)"

text \<open>The four assignments that accept a candidate (the same in both passes).\<close>

definition accept :: "candidate \<Rightarrow> sel_state \<Rightarrow> sel_state" where
  "accept m st =
     \<lparr>matches = matches st @ [m],
      selected_indices = insert (segment_idx m) (selected_indices st),
      used_brolls = (used_brolls st)(broll_id m \<mapsto> used_count st (broll_id m) + 1),
      last_insertion_time = m_start_time m\<rparr>"

fun pass1 :: "int \<Rightarrow> candidate list \<Rightarrow> sel_state \<Rightarrow> sel_state" where
  "pass1 max_ins [] st = st"
| "pass1 max_ins (m # rest) st =
     (if max_ins \<le> int (length (matches st)) then st
      else if segment_idx m \<in> selected_indices st then pass1 max_ins rest st
      else if 2 \<le> used_count st (broll_id m) then pass1 max_ins rest st
      else if m_start_time m - last_insertion_time st < 5 then pass1 max_ins rest st
      else pass1 max_ins rest (accept m st))"

fun pass2 :: "int \<Rightarrow> candidate list \<Rightarrow> sel_state \<Rightarrow> sel_state" where
  "pass2 min_ins [] st = st"
| "pass2 min_ins (m # rest) st =
     (if min_ins \<le> int (length (matches st)) then st
      else if segment_idx m \<in> selected_indices st then pass2 min_ins rest st
      else if m_start_time m - last_insertion_time st < 3 then pass2 min_ins rest st
      else pass2 min_ins rest (accept m st))"

text \<open>Both passes over an already sorted candidate list.\<close>

definition run_passes :: "config \<Rightarrow> candidate list \<Rightarrow> sel_state" where
  "run_passes cfg sorted_matches =
     (let st1 = pass1 (max_insertions cfg) sorted_matches initial_state
      in if int (length (matches st1)) < min_insertions cfg
         then pass2 (min_insertions cfg) sorted_matches st1
         else st1)"

definition select_best_matches ::
  "config \<Rightarrow> fl list list \<Rightarrow> segment list \<Rightarrow> string list \<Rightarrow> (string \<times> string) list \<Rightarrow>
   error + candidate list"
where
  "select_best_matches cfg similarity_matrix aroll_segments broll_ids broll_descriptions =
     (case potential_matches (similarity_threshold cfg) similarity_matrix aroll_segments
             broll_ids broll_descriptions of
        Inl e \<Rightarrow> Inl e
      | Inr pm \<Rightarrow>
          Inr (sort_key m_start_time (matches (run_passes cfg (sort_by_similarity pm)))))"

section \<open>matcher.py: the Reason Annotator and \<open>match\<close>\<close>

text \<open>\<open>str.lower\<close>, \<open>str.capitalize\<close> and \<open>k in s\<close>, on ASCII text.\<close>

definition lower_char :: "char \<Rightarrow> char" where
  "lower_char c =
     (let n = (of_char c :: nat) in if 65 \<le> n \<and> n \<le> 90 then char_of (n + 32) else c)"

definition upper_char :: "char \<Rightarrow> char" where
  "upper_char c =
     (let n = (of_char c :: nat) in if 97 \<le> n \<and> n \<le> 122 then char_of (n - 32) else c)"

definition lower :: "string \<Rightarrow> string" where
  "lower s = map lower_char s"

definition capitalize :: "string \<Rightarrow> string" where
  "capitalize s = (case s of [] \<Rightarrow> [] | c # cs \<Rightarrow> upper_char c # map lower_char cs)"

fun contains :: "string \<Rightarrow> string \<Rightarrow> bool" where
  "contains k [] = (k = [])"
| "contains k (c # cs) = (take (length k) (c # cs) = k \<or> contains k cs)"

definition keywords_to_check :: "string list" where
  "keywords_to_check =
     [''product'', ''demo'', ''demonstration'', ''app'', ''application'',
      ''office'', ''work'', ''working'', ''code'', ''coding'', ''programming'',
      ''team'', ''collaboration'', ''data'', ''analytics'', ''visualization'',
      ''typing'', ''keyboard'', ''interface'', ''screen'']"

definition generate_reason :: "string \<Rightarrow> string \<Rightarrow> fl \<Rightarrow> string" where
  "generate_reason aroll_text' broll_description' sim =
     (let strength = (if fl_ge sim (Fin 0.85) then ''highly relevant''
                      else if fl_ge sim (Fin 0.75) then ''relevant''
                      else ''somewhat relevant'');
          aroll_lower = lower aroll_text';
          broll_lower = lower broll_description';
          common_keywords =
            filter (\<lambda>keyword. contains keyword aroll_lower \<and> contains keyword broll_lower)
              keywords_to_check
      in case common_keywords of
           theme # _ \<Rightarrow>
             capitalize strength @ '' match: both mention '' @ [CHR 0x27] @ theme @ [CHR 0x27]
         | [] \<Rightarrow> capitalize strength @ '' semantic match'')"

text \<open>The body of the formatting loop of \<open>match\<close>.\<close>

definition format_match :: "segment list \<Rightarrow> candidate \<Rightarrow> error + insertion" where
  "format_match aroll_segments m =
     (if segment_idx m < length aroll_segments
      then
        let seg = aroll_segments ! segment_idx m;
            duration = end_time seg - start_time seg
        in Inr \<lparr>start_sec = py_round 2 (start_time seg),
                duration_sec = py_round 2 duration,
                i_broll_id = broll_id m,
                confidence = fl_round 3 (similarity m),
                reason = generate_reason (aroll_text m) (broll_description m) (similarity m)\<rparr>
      else Inl IndexError)"

fun format_matches :: "segment list \<Rightarrow> candidate list \<Rightarrow> error + insertion list" where
  "format_matches aroll_segments [] = Inr []"
| "format_matches aroll_segments (m # ms) =
     (case format_match aroll_segments m of
        Inl e \<Rightarrow> Inl e
      | Inr f \<Rightarrow>
          (case format_matches aroll_segments ms of
             Inl e \<Rightarrow> Inl e
           | Inr fs \<Rightarrow> Inr (f # fs)))"

text \<open>\<open>[broll_descriptions[b_id] for b_id in broll_ids]\<close>\<close>

fun dict_get_all :: "(string \<times> string) list \<Rightarrow> string list \<Rightarrow> error + string list" where
  "dict_get_all d [] = Inr []"
| "dict_get_all d (k # ks) =
     (case dict_get d k of
        Inl e \<Rightarrow> Inl e
      | Inr v \<Rightarrow> (case dict_get_all d ks of Inl e \<Rightarrow> Inl e | Inr vs \<Rightarrow> Inr (v # vs)))"

text \<open>
  \<open>match\<close>. The embedding provider (\<open>_get_embeddings\<close>, a call to the network) is the
  parameter \<open>get_embeddings\<close>: it returns one vector per text, or fails. The dict of clip
  descriptions is an association list in insertion order.
\<close>

definition match ::
  "config \<Rightarrow> (string list \<Rightarrow> error + real list list) \<Rightarrow> segment list \<Rightarrow>
   (string \<times> string) list \<Rightarrow> error + insertion list"
where
  "match cfg get_embeddings aroll_segments broll_descriptions =
     (if aroll_segments = [] then Inl (ValueError ''A-roll segments list is empty'')
      else if broll_descriptions = [] then Inl (ValueError ''B-roll descriptions dictionary is empty'')
      else
        let aroll_texts = map seg_text aroll_segments;
            broll_ids = map fst broll_descriptions
        in case dict_get_all broll_descriptions broll_ids of
             Inl e \<Rightarrow> Inl e
           | Inr broll_texts \<Rightarrow>
              (case get_embeddings aroll_texts of
                 Inl e \<Rightarrow> Inl e
               | Inr aroll_embeddings \<Rightarrow>
                  (case get_embeddings broll_texts of
                     Inl e \<Rightarrow> Inl e
                   | Inr broll_embeddings \<Rightarrow>
                      (case calculate_similarity_matrix aroll_embeddings broll_embeddings of
                         Inl e \<Rightarrow> Inl e
                       | Inr similarity_matrix \<Rightarrow>
                          (case select_best_matches cfg similarity_matrix aroll_segments
                                  broll_ids broll_descriptions of
                             Inl e \<Rightarrow> Inl e
                           | Inr ms \<Rightarrow> format_matches aroll_segments ms)))))"

text \<open>
  The provider's contract: it succeeds and returns as many vectors as it was given
  texts, each of dimension \<open>d\<close>.
\<close>

definition provider_ok :: "(string list \<Rightarrow> error + real list list) \<Rightarrow> string list \<Rightarrow> nat \<Rightarrow> bool" where
  "provider_ok get_embeddings texts d =
     (case get_embeddings texts of
        Inl e \<Rightarrow> False
      | Inr E \<Rightarrow> length E = length texts \<and> list_all (\<lambda>v. length v = d) E)"

section \<open>timeline.py: the Timeline Assembler\<close>

datatype timeline_segment =
    A_roll (seg_start: real) (seg_end: real) (seg_duration: real) (seg_source: string)
      (transcript: string)
  | B_roll (seg_start: real) (seg_end: real) (seg_duration: real) (seg_source: string)
      (insertion_reason: string) (seg_confidence: fl) (matching_segment: "segment option")

text \<open>\<open>" ".join(parts)\<close>\<close>

fun join_space :: "string list \<Rightarrow> string" where
  "join_space [] = []"
| "join_space [x] = x"
| "join_space (x # y # ys) = x @ '' '' @ join_space (y # ys)"

definition get_transcript_for_range :: "segment list \<Rightarrow> real \<Rightarrow> real \<Rightarrow> string" where
  "get_transcript_for_range segments t0 t1 =
     join_space (map seg_text
       (filter (\<lambda>seg. \<not> (end_time seg < t0 \<or> start_time seg > t1)) segments))"

text \<open>The body of \<open>for insertion in insertions\<close>: the state is the cursor
  \<open>current_time\<close> and the list \<open>timeline_segments\<close> built so far.\<close>

definition timeline_step ::
  "segment list \<Rightarrow> insertion \<Rightarrow> real \<times> timeline_segment list \<Rightarrow> real \<times> timeline_segment list"
where
  "timeline_step aroll_segments ins st =
     (let current_time = fst st;
          out = snd st;
          insertion_start = start_sec ins;
          insertion_duration = duration_sec ins;
          out1 = (if current_time < insertion_start
                  then out @ [A_roll (py_round 2 current_time) (py_round 2 insertion_start)
                                (py_round 2 (insertion_start - current_time)) ''a_roll_video''
                                (get_transcript_for_range aroll_segments current_time insertion_start)]
                  else out);
          matching = find (\<lambda>seg. \<bar>start_time seg - insertion_start\<bar> < 0.1) aroll_segments;
          out2 = out1 @ [B_roll (py_round 2 insertion_start)
                           (py_round 2 (insertion_start + insertion_duration))
                           (py_round 2 insertion_duration) (i_broll_id ins)
                           (reason ins) (confidence ins) matching]
      in (insertion_start + insertion_duration, out2))"

fun timeline_loop ::
  "segment list \<Rightarrow> insertion list \<Rightarrow> real \<times> timeline_segment list \<Rightarrow> real \<times> timeline_segment list"
where
  "timeline_loop aroll_segments [] st = st"
| "timeline_loop aroll_segments (ins # rest) st =
     timeline_loop aroll_segments rest (timeline_step aroll_segments ins st)"

definition create_timeline_segments :: "segment list \<Rightarrow> insertion list \<Rightarrow> timeline_segment list" where
  "create_timeline_segments aroll_segments broll_matches =
     (let insertions = sort_key start_sec broll_matches
      in if aroll_segments = [] then []
         else
           let total_aroll_duration = end_time (last aroll_segments);
               st = timeline_loop aroll_segments insertions (0, []);
               current_time = fst st;
               out = snd st;
               out1 = (if current_time < total_aroll_duration
                       then out @ [A_roll (py_round 2 current_time) (py_round 2 total_aroll_duration)
                                     (py_round 2 (total_aroll_duration - current_time)) ''a_roll_video''
                                     (get_transcript_for_range aroll_segments current_time
                                        total_aroll_duration)]
                       else out);
               out2 = (if insertions = []
                       then out1 @ [A_roll 0 (py_round 2 total_aroll_duration)
                                      (py_round 2 total_aroll_duration) ''a_roll_video''
                                      (get_transcript_for_range aroll_segments 0 total_aroll_duration)]
                       else out1)
           in out2)"

section \<open>Invariants of the candidates\<close>

text \<open>What every potential match records about its segment and its matrix cell.\<close>

definition cand_ok :: "real \<Rightarrow> fl list list \<Rightarrow> segment list \<Rightarrow> string list \<Rightarrow> candidate \<Rightarrow> bool" where
  "cand_ok thr M segs ids c =
     (segment_idx c < length segs \<and>
      m_start_time c = start_time (segs ! segment_idx c) \<and>
      m_end_time c = end_time (segs ! segment_idx c) \<and>
      fl_ge (similarity c) (Fin thr) \<and>
      broll_id c \<in> set ids \<and>
      (\<exists>j < length ids. broll_id c = ids ! j \<and>
                           matrix_at M (segment_idx c) j = Inr (similarity c)))"

text \<open>Cells of the similarity matrix are finite or NaN, never infinite.\<close>

definition no_inf :: "fl \<Rightarrow> bool" where
  "no_inf x = (x \<noteq> PInf \<and> x \<noteq> NInf)"

section \<open>Tiling of the timeline\<close>

text \<open>
  An insertion list, in chronological order, is non-overlapping from the cursor on when
  each insertion starts no earlier than the end of the one before it.
\<close>

fun chained :: "real \<Rightarrow> insertion list \<Rightarrow> bool" where
  "chained cur [] = True"
| "chained cur (i # rest) = (cur \<le> start_sec i \<and> chained (start_sec i + duration_sec i) rest)"

text \<open>Every insertion ends within the narration.\<close>

definition within_span :: "real \<Rightarrow> insertion list \<Rightarrow> bool" where
  "within_span span_end ins = list_all (\<lambda>i. start_sec i + duration_sec i \<le> span_end) ins"

text \<open>Each interval starts where the one before it ends.\<close>

fun contiguous :: "timeline_segment list \<Rightarrow> bool" where
  "contiguous [] = True"
| "contiguous [x] = True"
| "contiguous (x # y # ys) = (seg_start y = seg_end x \<and> contiguous (y # ys))"

text \<open>The intervals cover \<open>[0, T]\<close> with no gap and no overlap.\<close>

definition tiles :: "timeline_segment list \<Rightarrow> real \<Rightarrow> bool" where
  "tiles ivs T = (ivs \<noteq> [] \<and> seg_start (hd ivs) = 0 \<and> contiguous ivs \<and> seg_end (last ivs) = T)"

text \<open>Invariant of the loop of the assembler: the output built so far tiles up to the cursor.\<close>

definition cursor_inv :: "real \<times> timeline_segment list \<Rightarrow> bool" where
  "cursor_inv st =
     (if snd st = [] then fst st = 0
      else seg_start (hd (snd st)) = 0 \<and> contiguous (snd st) \<and>
           seg_end (last (snd st)) = py_round 2 (fst st))"

section \<open>Invariants of the two passes\<close>

text \<open>The cursor \<open>last_insertion_time\<close> is the start of the candidate accepted last.\<close>

definition cursor_ok :: "sel_state \<Rightarrow> bool" where
  "cursor_ok st =
     (matches st \<noteq> [] \<longrightarrow> last_insertion_time st = m_start_time (last (matches st)))"

definition gap5 :: "candidate \<Rightarrow> candidate \<Rightarrow> bool" where
  "gap5 a b = (5 \<le> m_start_time b - m_start_time a)"

text \<open>Pass 1 accepts in increasing order of start time, 5 s apart, and the cursor bounds them.\<close>

definition strict_ok :: "sel_state \<Rightarrow> bool" where
  "strict_ok st =
     (sorted_wrt gap5 (matches st) \<and>
      (\<forall>y \<in> set (matches st). m_start_time y \<le> last_insertion_time st))"

text \<open>From position \<open>n\<close> on, each accepted candidate starts 3 s after the one accepted before.\<close>

definition relaxed_ok :: "nat \<Rightarrow> sel_state \<Rightarrow> bool" where
  "relaxed_ok n st =
     (\<forall>k. n \<le> k \<and> k < length (matches st) \<and> 0 < k \<longrightarrow>
          3 \<le> m_start_time (matches st ! k) - m_start_time (matches st ! (k - 1)))"

text \<open>Pass 1 keeps the counter of uses equal to the number of uses, and at most 2.\<close>

definition cap_ok :: "sel_state \<Rightarrow> bool" where
  "cap_ok st =
     (\<forall>b. used_count st b = count_list (map broll_id (matches st)) b \<and> used_count st b \<le> 2)"

text \<open>A candidate for the examples below.\<close>

definition example_candidate :: "nat \<Rightarrow> string \<Rightarrow> real \<Rightarrow> candidate" where
  "example_candidate i b t =
     \<lparr>segment_idx = i, broll_id = b, similarity = Fin 0.9, m_start_time = t,
      m_end_time = t + 2, aroll_text = ''talk'', broll_description = ''clip''\<rparr>"

section \<open>Properties of the Timeline Assembler\<close>

lemma py_round_zero: "py_round n 0 = 0"
  by (simp add: py_round_def round_half_even_def)

lemma no_insertions_two_segments:
  assumes "aroll_segments \<noteq> []" and "0 < end_time (last aroll_segments)"
  shows "create_timeline_segments aroll_segments [] =
           (let T = end_time (last aroll_segments);
                s = A_roll 0 (py_round 2 T) (py_round 2 T) ''a_roll_video''
                      (get_transcript_for_range aroll_segments 0 T)
            in [s, s])"
  using assms by (simp add: create_timeline_segments_def Let_def py_round_zero)

text \<open>
  Claim C2. With no insertions the assembler should return exactly one narration interval
  from 0.0 to the end of the last narration segment. On the scenario of the
  specification (narration ending at 40.2 s, no insertion) the code returns that
  interval twice: once as the remainder after the (empty) loop, and once more from the
  special case for an empty insertion list.
\<close>

theorem C2_no_insertions_duplicated:
  "create_timeline_segments [\<lparr>start_time = 0, end_time = 40.2, seg_text = ''hello''\<rparr>] [] =
     [A_roll 0 40.2 40.2 ''a_roll_video'' ''hello'',
      A_roll 0 40.2 40.2 ''a_roll_video'' ''hello'']"
  by (simp add: create_timeline_segments_def Let_def py_round_def round_half_even_def
      get_transcript_for_range_def)

lemma contiguous_snoc:
  "contiguous (xs @ [x]) = (contiguous xs \<and> (xs \<noteq> [] \<longrightarrow> seg_start x = seg_end (last xs)))"
  by (induction xs rule: contiguous.induct) auto

lemma timeline_step_inv:
  assumes "cursor_inv st" and "fst st \<le> start_sec i"
  shows "cursor_inv (timeline_step segs i st) \<and> snd (timeline_step segs i st) \<noteq> [] \<and>
         fst (timeline_step segs i st) = start_sec i + duration_sec i"
proof (cases "snd st = []")
  case True
  with assms show ?thesis
    by (auto simp: cursor_inv_def timeline_step_def Let_def py_round_zero contiguous_snoc)
next
  case False
  with assms show ?thesis
    by (auto simp: cursor_inv_def timeline_step_def Let_def contiguous_snoc)
qed

lemma timeline_loop_inv:
  assumes "cursor_inv st" and "chained (fst st) ins"
  shows "cursor_inv (timeline_loop segs ins st)"
  using assms
proof (induction ins arbitrary: st)
  case Nil
  then show ?case by simp
next
  case (Cons i rest)
  from Cons.prems have le: "fst st \<le> start_sec i" and ch: "chained (start_sec i + duration_sec i) rest"
    by simp_all
  from timeline_step_inv [OF Cons.prems(1) le, of segs]
  have "cursor_inv (timeline_step segs i st)"
    and "fst (timeline_step segs i st) = start_sec i + duration_sec i" by simp_all
  with ch Cons.IH [of "timeline_step segs i st"] show ?case by simp
qed

lemma timeline_loop_nonempty:
  "ins \<noteq> [] \<or> snd st \<noteq> [] \<Longrightarrow> snd (timeline_loop segs ins st) \<noteq> []"
proof (induction ins arbitrary: st)
  case Nil
  then show ?case by simp
next
  case (Cons i rest)
  have "snd (timeline_step segs i st) \<noteq> []" by (simp add: timeline_step_def Let_def)
  with Cons.IH [of "timeline_step segs i st"] show ?case by simp
qed

lemma timeline_loop_cursor:
  "ins \<noteq> [] \<Longrightarrow>
   fst (timeline_loop segs ins st) = start_sec (last ins) + duration_sec (last ins)"
proof (induction ins arbitrary: st)
  case Nil
  then show ?case by simp
next
  case (Cons i rest)
  show ?case
  proof (cases "rest = []")
    case True
    then show ?thesis by (simp add: timeline_step_def Let_def)
  next
    case False
    with Cons.IH [of "timeline_step segs i st"] show ?thesis by simp
  qed
qed

text \<open>
  Claim C7 says that the last interval ends at the end time of the last narration
  segment. The assembler rounds every boundary to two decimals: a narration ending at
  10.004 s gives a timeline that ends at 10.0 s.
\<close>

theorem C7_end_is_rounded_counterexample:
  "[\<lparr>start_time = 0, end_time = 10.004, seg_text = ''a''\<rparr>] \<noteq> [] \<and>
   chained 0 (sort_key start_sec
     [\<lparr>start_sec = 2, duration_sec = 3, i_broll_id = ''b'', confidence = Fin 0.9, reason = ''r''\<rparr>]) \<and>
   within_span (end_time (last [\<lparr>start_time = 0, end_time = 10.004, seg_text = ''a''\<rparr>]))
     [\<lparr>start_sec = 2, duration_sec = 3, i_broll_id = ''b'', confidence = Fin 0.9, reason = ''r''\<rparr>] \<and>
   \<not> tiles (create_timeline_segments [\<lparr>start_time = 0, end_time = 10.004, seg_text = ''a''\<rparr>]
      [\<lparr>start_sec = 2, duration_sec = 3, i_broll_id = ''b'', confidence = Fin 0.9, reason = ''r''\<rparr>])
     (end_time (last [\<lparr>start_time = 0, end_time = 10.004, seg_text = ''a''\<rparr>]))"
  by (simp add: within_span_def tiles_def create_timeline_segments_def timeline_step_def Let_def
      py_round_def round_half_even_def)

text \<open>
  Claim C7, amended. For a non-empty narration and a non-empty insertion list that is
  non-overlapping in chronological order and contained in the narration span, the
  intervals tile from 0.0 to the end of the last narration segment rounded to two
  decimals: the first starts at 0.0, each later one starts where the previous ends, and
  the last ends at the rounded total.
\<close>

theorem C7_tiling_up_to_rounding:
  assumes segs: "aroll_segments \<noteq> []"
    and ins: "broll_matches \<noteq> []"
    and ch: "chained 0 (sort_key start_sec broll_matches)"
    and sp: "within_span (end_time (last aroll_segments)) broll_matches"
  shows "tiles (create_timeline_segments aroll_segments broll_matches)
           (py_round 2 (end_time (last aroll_segments)))"
proof -
  define sorted_ins where "sorted_ins = sort_key start_sec broll_matches"
  define st where "st = timeline_loop aroll_segments sorted_ins (0, [])"
  define T where "T = end_time (last aroll_segments)"
  have ne: "sorted_ins \<noteq> []"
    using ins by (metis sorted_ins_def length_sort length_0_conv)
  have inv: "cursor_inv st"
    unfolding st_def using ch
    by (intro timeline_loop_inv) (simp_all add: cursor_inv_def sorted_ins_def)
  have out: "snd st \<noteq> []"
    unfolding st_def using ne by (intro timeline_loop_nonempty) simp
  have "last sorted_ins \<in> set broll_matches"
    using ne last_in_set [OF ne] by (simp add: sorted_ins_def)
  with sp have "start_sec (last sorted_ins) + duration_sec (last sorted_ins) \<le> T"
    by (simp add: within_span_def list_all_iff T_def)
  then have cur: "fst st \<le> T"
    unfolding st_def using timeline_loop_cursor [OF ne] by simp
  have res: "create_timeline_segments aroll_segments broll_matches =
          (if fst st < T
           then snd st @ [A_roll (py_round 2 (fst st)) (py_round 2 T) (py_round 2 (T - fst st))
                            ''a_roll_video'' (get_transcript_for_range aroll_segments (fst st) T)]
           else snd st)"
    using segs ne
    by (simp add: create_timeline_segments_def Let_def sorted_ins_def [symmetric]
        st_def [symmetric] T_def [symmetric])
  from inv out have h: "seg_start (hd (snd st)) = 0" and c: "contiguous (snd st)"
    and e: "seg_end (last (snd st)) = py_round 2 (fst st)"
    by (simp_all add: cursor_inv_def)
  show ?thesis
  proof (cases "fst st < T")
    case True
    with res out h c e show ?thesis
      by (simp add: tiles_def contiguous_snoc T_def)
  next
    case False
    with cur have "fst st = T" by simp
    with False res out h c e show ?thesis
      by (simp add: tiles_def T_def)
  qed
qed

theorem C7_tiling_witness:
  "[\<lparr>start_time = 0, end_time = 10.004, seg_text = ''a''\<rparr>] \<noteq> [] \<and>
   [\<lparr>start_sec = 2, duration_sec = 3, i_broll_id = ''b'', confidence = Fin 0.9, reason = ''r''\<rparr>] \<noteq> [] \<and>
   chained 0 (sort_key start_sec
     [\<lparr>start_sec = 2, duration_sec = 3, i_broll_id = ''b'', confidence = Fin 0.9, reason = ''r''\<rparr>]) \<and>
   within_span (end_time (last [\<lparr>start_time = 0, end_time = 10.004, seg_text = ''a''\<rparr>]))
     [\<lparr>start_sec = 2, duration_sec = 3, i_broll_id = ''b'', confidence = Fin 0.9, reason = ''r''\<rparr>] \<and>
   map (\<lambda>s. (seg_start s, seg_end s))
     (create_timeline_segments [\<lparr>start_time = 0, end_time = 10.004, seg_text = ''a''\<rparr>]
      [\<lparr>start_sec = 2, duration_sec = 3, i_broll_id = ''b'', confidence = Fin 0.9, reason = ''r''\<rparr>])
   = [(0, 2), (2, 5), (5, 10)] \<and>
   tiles (create_timeline_segments [\<lparr>start_time = 0, end_time = 10.004, seg_text = ''a''\<rparr>]
      [\<lparr>start_sec = 2, duration_sec = 3, i_broll_id = ''b'', confidence = Fin 0.9, reason = ''r''\<rparr>]) 10"
  using C7_tiling_up_to_rounding [of "[\<lparr>start_time = 0, end_time = 10.004, seg_text = ''a''\<rparr>]"
      "[\<lparr>start_sec = 2, duration_sec = 3, i_broll_id = ''b'', confidence = Fin 0.9, reason = ''r''\<rparr>]"]
  by (simp add: within_span_def create_timeline_segments_def timeline_step_def Let_def
      py_round_def round_half_even_def)

section \<open>Properties of the batch analysis\<close>

lemma step_map_of:
  "map_of (analyze_brolls_step L D item acc) =
     (map_of acc)(fst item \<mapsto>
        (case analyze_broll L D (fst item) (snd item) of
           Inr d \<Rightarrow> d
         | Inl e \<Rightarrow> placeholder (fst item)))"
  by (simp add: analyze_brolls_step_def update_conv' split: sum.splits)

lemma step_keys:
  "map fst (analyze_brolls_step L D item acc) =
     (if fst item \<in> set (map fst acc) then map fst acc else map fst acc @ [fst item])"
  by (simp add: analyze_brolls_step_def update_keys split: sum.splits)

lemma fold_step_keys:
  "distinct (map fst md) \<Longrightarrow> set (map fst md) \<inter> set (map fst acc) = {} \<Longrightarrow>
   map fst (fold (analyze_brolls_step L D) md acc) = map fst acc @ map fst md"
proof (induction md arbitrary: acc)
  case Nil
  then show ?case by simp
next
  case (Cons item md)
  have k: "map fst (analyze_brolls_step L D item acc) = map fst acc @ [fst item]"
    using Cons.prems(2) by (simp add: step_keys)
  have "set (map fst md) \<inter> set (map fst (analyze_brolls_step L D item acc)) = {}"
    using Cons.prems unfolding k by auto
  with Cons.IH [of "analyze_brolls_step L D item acc"] Cons.prems(1) k
  show ?case by simp
qed

lemma fold_step_other:
  "bid \<notin> fst ` set md \<Longrightarrow>
   map_of (fold (analyze_brolls_step L D) md acc) bid = map_of acc bid"
  by (induction md arbitrary: acc) (simp_all add: step_map_of)

lemma fold_step_map_of:
  "distinct (map fst md) \<Longrightarrow> (bid, m) \<in> set md \<Longrightarrow>
   map_of (fold (analyze_brolls_step L D) md acc) bid =
     Some (case analyze_broll L D bid m of Inr d \<Rightarrow> d | Inl e \<Rightarrow> placeholder bid)"
proof (induction md arbitrary: acc)
  case Nil
  then show ?case by simp
next
  case (Cons item md)
  show ?case
  proof (cases "(bid, m) \<in> set md")
    case True
    with Cons show ?thesis by simp
  next
    case False
    with Cons.prems have item: "item = (bid, m)" by auto
    with Cons.prems have notin: "bid \<notin> fst ` set md" by force
    show ?thesis
      by (simp add: fold_step_other [OF notin] item step_map_of split: sum.splits)
  qed
qed

text \<open>
  Claim C9. \<open>analyze_brolls\<close> returns a description for every clip id of the batch, in
  the order of the batch: the description that \<open>analyze_broll\<close> built when it returned,
  and the placeholder \<open>B-roll clip <id>\<close> when it raised. A clip that fails never
  aborts the batch, whatever the loader and the description builder do. (The keys of a
  dict are distinct.)
\<close>

theorem C9_analyze_brolls_isolates_failures:
  assumes "distinct (map fst broll_metadata)"
  shows "map fst (analyze_brolls load_json describe broll_metadata) = map fst broll_metadata \<and>
         (\<forall>(broll_id, metadata) \<in> set broll_metadata.
            map_of (analyze_brolls load_json describe broll_metadata) broll_id =
              Some (case analyze_broll load_json describe broll_id metadata of
                      Inr description \<Rightarrow> description
                    | Inl e \<Rightarrow> ''B-roll clip '' @ broll_id))"
proof -
  have "map fst (analyze_brolls load_json describe broll_metadata) = map fst broll_metadata"
    using assms fold_step_keys [of broll_metadata "[]" load_json describe]
    by (simp add: analyze_brolls_def)
  moreover have "map_of (analyze_brolls load_json describe broll_metadata) bid =
              Some (case analyze_broll load_json describe bid metadata of
                      Inr description \<Rightarrow> description
                    | Inl e \<Rightarrow> ''B-roll clip '' @ bid)"
    if "(bid, metadata) \<in> set broll_metadata" for bid metadata
    using assms that fold_step_map_of [of broll_metadata bid metadata load_json describe "[]"]
    by (simp add: analyze_brolls_def placeholder_def split: sum.splits)
  ultimately show ?thesis by blast
qed

text \<open>
  A batch of three clips: the second is a number (not a dict, so normalisation raises
  \<open>ValueError\<close>), the third makes the description builder raise.
\<close>

theorem C9_analyze_brolls_witness:
  "distinct (map fst [(''a'', JDict [(''title'', JStr ''x'')]), (''b'', JNum 5), (''c'', JDict [])]) \<and>
   analyze_brolls (\<lambda>s. Inl (ValueError ''bad json''))
       (\<lambda>d. if d = [] then Inl (KeyError ''title'') else Inr ''x'')
       [(''a'', JDict [(''title'', JStr ''x'')]), (''b'', JNum 5), (''c'', JDict [])]
     = [(''a'', ''x''), (''b'', ''B-roll clip b''), (''c'', ''B-roll clip c'')]"
  using C9_analyze_brolls_isolates_failures
    [of "[(''a'', JDict [(''title'', JStr ''x'')]), (''b'', JNum 5), (''c'', JDict [])]"
      "\<lambda>s. Inl (ValueError ''bad json'')"
      "\<lambda>d. if d = [] then Inl (KeyError ''title'') else Inr ''x''"]
  by (simp add: analyze_brolls_def analyze_brolls_step_def analyze_broll_def
      normalize_metadata_def placeholder_def)

section \<open>Properties of the Similarity Engine\<close>

lemma cosine_similarity_zero_norm:
  "norm2 vec1 = 0 \<or> norm2 vec2 = 0 \<Longrightarrow> cosine_similarity vec1 vec2 = Fin 0"
  by (simp add: cosine_similarity_def Let_def)

text \<open>
  Claim C3. A zero-norm vector should give the cell 0.0. The matrix that \<open>match\<close> uses
  divides every row by its norm with no guard, so the row of a zero vector becomes
  \<open>0/0 = nan\<close> and so does every cell of that vector; only the unused pairwise
  function \<open>_cosine_similarity\<close> returns 0.0 there.
\<close>

theorem C3_zero_vector_gives_nan:
  "calculate_similarity_matrix [[0, 0]] [[1, 0]] = Inr [[NaN]] \<and>
   cosine_similarity [0, 0] [1, 0] = Fin 0"
  by (simp add: calculate_similarity_matrix_def well_shaped_def normalize_rows_def norm2_def
      np_div_def fl_dot_def cosine_similarity_def dot_def)

section \<open>Properties of the Constrained Selector\<close>

text \<open>
  Claim C1. No clip should appear in more than two accepted insertions. Pass 1 checks
  the count of uses; Pass 2 increments the count but never reads it. With one clip,
  three segments 10 s apart and \<open>min_insertions = 3\<close>, Pass 1 accepts two segments and
  refuses the third for the cap, and Pass 2 then accepts it: the clip is inserted three
  times.
\<close>

theorem C1_pass2_exceeds_reuse_cap:
  "map_sum id (map broll_id)
     (select_best_matches
        \<lparr>similarity_threshold = 0.72, min_insertions = 3, max_insertions = 6\<rparr>
        [[Fin 0.9], [Fin 0.8], [Fin 0.75]]
        [\<lparr>start_time = 0, end_time = 4, seg_text = ''a''\<rparr>,
         \<lparr>start_time = 10, end_time = 14, seg_text = ''b''\<rparr>,
         \<lparr>start_time = 20, end_time = 24, seg_text = ''c''\<rparr>]
        [''broll_1''] [(''broll_1'', ''demo'')])
   = Inr [''broll_1'', ''broll_1'', ''broll_1'']"
  by (simp add: select_best_matches_def potential_matches_def enumerate_eq_zip matrix_at_def
      dict_get_def sort_by_similarity_def run_passes_def initial_state_def used_count_def
      accept_def upt_rec)

lemma accept_simps [simp]:
  "matches (accept m st) = matches st @ [m]"
  "selected_indices (accept m st) = insert (segment_idx m) (selected_indices st)"
  "last_insertion_time (accept m st) = m_start_time m"
  by (simp_all add: accept_def)

lemma cursor_ok_initial: "cursor_ok initial_state"
  by (simp add: cursor_ok_def initial_state_def)

lemma cursor_ok_accept: "cursor_ok (accept m st)"
  by (simp add: cursor_ok_def)

lemma pass1_cursor_ok: "cursor_ok st \<Longrightarrow> cursor_ok (pass1 mx cs st)"
  by (induction cs arbitrary: st) (simp_all add: cursor_ok_accept)

lemma pass2_cursor_ok: "cursor_ok st \<Longrightarrow> cursor_ok (pass2 mn cs st)"
  by (induction cs arbitrary: st) (simp_all add: cursor_ok_accept)

lemma strict_ok_accept:
  assumes "strict_ok st" and "\<not> m_start_time m - last_insertion_time st < 5"
  shows "strict_ok (accept m st)"
  using assms by (fastforce simp: strict_ok_def sorted_wrt_append gap5_def)

lemma pass1_strict_ok: "strict_ok st \<Longrightarrow> strict_ok (pass1 mx cs st)"
  by (induction cs arbitrary: st) (simp_all add: strict_ok_accept)

lemma strict_ok_initial: "strict_ok initial_state"
  by (simp add: strict_ok_def initial_state_def)

lemma pass1_length: "int (length (matches st)) \<le> mx \<Longrightarrow> int (length (matches (pass1 mx cs st))) \<le> mx"
  by (induction cs arbitrary: st) auto

lemma pass2_length:
  "int (length (matches st)) \<le> b \<Longrightarrow> mn \<le> b \<Longrightarrow> int (length (matches (pass2 mn cs st))) \<le> b"
  by (induction cs arbitrary: st) auto

lemma pass1_extends: "\<exists>extra. matches (pass1 mx cs st) = matches st @ extra"
proof (induction cs arbitrary: st)
  case Nil
  then show ?case by simp
next
  case (Cons c cs)
  obtain e where "matches (pass1 mx cs (accept c st)) = matches (accept c st) @ e"
    using Cons.IH by blast
  then have "matches (pass1 mx cs (accept c st)) = matches st @ (c # e)" by simp
  with Cons.IH [of st] show ?case by auto
qed

lemma pass2_extends: "\<exists>extra. matches (pass2 mn cs st) = matches st @ extra"
proof (induction cs arbitrary: st)
  case Nil
  then show ?case by simp
next
  case (Cons c cs)
  obtain e where "matches (pass2 mn cs (accept c st)) = matches (accept c st) @ e"
    using Cons.IH by blast
  then have "matches (pass2 mn cs (accept c st)) = matches st @ (c # e)" by simp
  with Cons.IH [of st] show ?case by auto
qed

lemma pass2_prefix: "take (length (matches st)) (matches (pass2 mn cs st)) = matches st"
proof -
  obtain e where "matches (pass2 mn cs st) = matches st @ e" using pass2_extends by blast
  then show ?thesis by simp
qed

lemma relaxed_ok_accept:
  assumes "relaxed_ok n st" and "cursor_ok st" and "\<not> m_start_time m - last_insertion_time st < 3"
  shows "relaxed_ok n (accept m st)"
  unfolding relaxed_ok_def
proof (intro allI impI)
  fix k
  assume k: "n \<le> k \<and> k < length (matches (accept m st)) \<and> 0 < k"
  show "3 \<le> m_start_time (matches (accept m st) ! k) - m_start_time (matches (accept m st) ! (k - 1))"
  proof (cases "k < length (matches st)")
    case True
    then have "k - 1 < length (matches st)" by simp
    with True k assms(1) show ?thesis by (simp add: relaxed_ok_def nth_append)
  next
    case False
    with k have keq: "k = length (matches st)" by simp
    with k have ne: "matches st \<noteq> []" by auto
    with assms(2) have "last_insertion_time st = m_start_time (last (matches st))"
      by (simp add: cursor_ok_def)
    with assms(3) ne keq k show ?thesis by (simp add: nth_append last_conv_nth)
  qed
qed

lemma pass2_relaxed_ok:
  "relaxed_ok n st \<Longrightarrow> cursor_ok st \<Longrightarrow> relaxed_ok n (pass2 mn cs st)"
  by (induction cs arbitrary: st) (simp_all add: relaxed_ok_accept cursor_ok_accept)

lemma relaxed_ok_start: "relaxed_ok (length (matches st)) st"
  by (simp add: relaxed_ok_def)

text \<open>Pass 1 alone respects the reuse cap (compare claim C1, where Pass 2 breaks it).\<close>

lemma used_count_accept:
  "used_count (accept m st) b = (if b = broll_id m then used_count st b + 1 else used_count st b)"
  by (simp add: used_count_def accept_def)

lemma cap_ok_accept:
  assumes "cap_ok st" and "\<not> 2 \<le> used_count st (broll_id m)"
  shows "cap_ok (accept m st)"
  unfolding cap_ok_def
proof
  fix b
  from assms(1) have "used_count st b = count_list (map broll_id (matches st)) b \<and>
      used_count st b \<le> 2" unfolding cap_ok_def by (rule spec)
  then have "used_count st b = count_list (map broll_id (matches st)) b"
    and "used_count st b \<le> 2" by blast+
  with assms(2) show "used_count (accept m st) b = count_list (map broll_id (matches (accept m st))) b \<and>
        used_count (accept m st) b \<le> 2"
    by (auto simp: used_count_accept)
qed

lemma pass1_cap_ok: "cap_ok st \<Longrightarrow> cap_ok (pass1 mx cs st)"
  by (induction cs arbitrary: st) (simp_all add: cap_ok_accept)

lemma pass1_respects_reuse_cap:
  "count_list (map broll_id (matches (pass1 mx cs initial_state))) b \<le> 2"
proof -
  have "cap_ok initial_state" by (simp add: cap_ok_def initial_state_def used_count_def)
  from pass1_cap_ok [OF this, of mx cs]
  have "used_count (pass1 mx cs initial_state) b =
          count_list (map broll_id (matches (pass1 mx cs initial_state))) b \<and>
        used_count (pass1 mx cs initial_state) b \<le> 2"
    unfolding cap_ok_def by (rule spec)
  then show ?thesis by simp
qed

text \<open>
  Claim C4. For every configuration and every candidate list: any two candidates accepted
  by Pass 1 start at least 5 s apart; Pass 2 keeps the acceptances of Pass 1 as a prefix;
  and every candidate that Pass 2 adds starts at least 3 s after the candidate accepted
  immediately before it (whose start is the running last-insertion time).
\<close>

theorem C4_spacing_of_the_two_passes:
  fixes cfg :: config and cs :: "candidate list"
  shows
  "(\<forall>i < length (matches (pass1 (max_insertions cfg) cs initial_state)).
     \<forall>j < length (matches (pass1 (max_insertions cfg) cs initial_state)).
       i \<noteq> j \<longrightarrow>
       5 \<le> \<bar>m_start_time (matches (pass1 (max_insertions cfg) cs initial_state) ! i)
             - m_start_time (matches (pass1 (max_insertions cfg) cs initial_state) ! j)\<bar>) \<and>
   take (length (matches (pass1 (max_insertions cfg) cs initial_state))) (matches (run_passes cfg cs))
     = matches (pass1 (max_insertions cfg) cs initial_state) \<and>
   (\<forall>k < length (matches (run_passes cfg cs)).
      length (matches (pass1 (max_insertions cfg) cs initial_state)) \<le> k \<and> 0 < k \<longrightarrow>
      3 \<le> m_start_time (matches (run_passes cfg cs) ! k)
            - m_start_time (matches (run_passes cfg cs) ! (k - 1)))"
proof -
  define st1 where "st1 = pass1 (max_insertions cfg) cs initial_state"
  have s: "sorted_wrt gap5 (matches st1)"
    using pass1_strict_ok [OF strict_ok_initial] by (simp add: st1_def strict_ok_def)
  have a: "5 \<le> \<bar>m_start_time (matches st1 ! i) - m_start_time (matches st1 ! j)\<bar>"
    if "i < length (matches st1)" "j < length (matches st1)" "i \<noteq> j" for i j
  proof (cases "i < j")
    case True
    with s that have "gap5 (matches st1 ! i) (matches st1 ! j)" by (simp add: sorted_wrt_iff_nth_less)
    then show ?thesis by (simp add: gap5_def)
  next
    case False
    with that have "j < i" by simp
    with s that have "gap5 (matches st1 ! j) (matches st1 ! i)" by (simp add: sorted_wrt_iff_nth_less)
    then show ?thesis by (simp add: gap5_def)
  qed
  have c1: "cursor_ok st1" using pass1_cursor_ok [OF cursor_ok_initial] by (simp add: st1_def)
  have b: "take (length (matches st1)) (matches (run_passes cfg cs)) = matches st1"
    by (simp add: run_passes_def st1_def [symmetric] pass2_prefix)
  have r: "relaxed_ok (length (matches st1)) (run_passes cfg cs)"
    using pass2_relaxed_ok [OF relaxed_ok_start c1] relaxed_ok_start [of st1]
    by (simp add: run_passes_def st1_def [symmetric])
  show ?thesis
    unfolding st1_def [symmetric] using a b r by (simp add: relaxed_ok_def)
qed

text \<open>Three segments at 0 s, 10 s and 13 s: Pass 1 takes two, Pass 2 adds the third.\<close>

theorem C4_spacing_witness:
  "length (matches (pass1 6 [example_candidate 0 ''a'' 0, example_candidate 1 ''b'' 10,
                             example_candidate 2 ''c'' 13] initial_state)) = 2 \<and>
   length (matches (run_passes \<lparr>similarity_threshold = 0.72, min_insertions = 3, max_insertions = 6\<rparr>
      [example_candidate 0 ''a'' 0, example_candidate 1 ''b'' 10, example_candidate 2 ''c'' 13])) = 3 \<and>
   5 \<le> \<bar>m_start_time (matches (pass1 6 [example_candidate 0 ''a'' 0, example_candidate 1 ''b'' 10,
                             example_candidate 2 ''c'' 13] initial_state) ! 0)
        - m_start_time (matches (pass1 6 [example_candidate 0 ''a'' 0, example_candidate 1 ''b'' 10,
                             example_candidate 2 ''c'' 13] initial_state) ! 1)\<bar> \<and>
   3 \<le> m_start_time (matches (run_passes \<lparr>similarity_threshold = 0.72, min_insertions = 3, max_insertions = 6\<rparr>
      [example_candidate 0 ''a'' 0, example_candidate 1 ''b'' 10, example_candidate 2 ''c'' 13]) ! 2)
      - m_start_time (matches (run_passes \<lparr>similarity_threshold = 0.72, min_insertions = 3, max_insertions = 6\<rparr>
      [example_candidate 0 ''a'' 0, example_candidate 1 ''b'' 10, example_candidate 2 ''c'' 13]) ! 1)"
  using C4_spacing_of_the_two_passes
    [of "\<lparr>similarity_threshold = 0.72, min_insertions = 3, max_insertions = 6\<rparr>"
        "[example_candidate 0 ''a'' 0, example_candidate 1 ''b'' 10, example_candidate 2 ''c'' 13]"]
  by (simp add: run_passes_def initial_state_def used_count_def accept_def example_candidate_def)

lemma pass2_done: "mn \<le> int (length (matches st)) \<Longrightarrow> pass2 mn cs st = st"
  by (cases cs) simp_all

lemma pass2_append: "pass2 mn (xs @ ys) st = pass2 mn ys (pass2 mn xs st)"
  by (induction xs arbitrary: st) (simp_all add: pass2_done)

lemma pass2_length_mono: "length (matches st) \<le> length (matches (pass2 mn cs st))"
proof -
  obtain e where "matches (pass2 mn cs st) = matches st @ e" using pass2_extends by blast
  then show ?thesis by simp
qed

lemma pass2_set_mono: "set (matches st) \<subseteq> set (matches (pass2 mn cs st))"
proof -
  obtain e where "matches (pass2 mn cs st) = matches st @ e" using pass2_extends by blast
  then show ?thesis by simp
qed

lemma pass2_complete:
  assumes short: "int (length (matches (pass2 mn cs st))) < mn"
    and k: "k < length cs"
    and seg: "segment_idx (cs ! k) \<notin> selected_indices (pass2 mn (take k cs) st)"
    and gap: "3 \<le> m_start_time (cs ! k) - last_insertion_time (pass2 mn (take k cs) st)"
  shows "cs ! k \<in> set (matches (pass2 mn cs st))"
proof -
  define stk where "stk = pass2 mn (take k cs) st"
  have split: "cs = take k cs @ [cs ! k] @ drop (Suc k) cs"
    using k by (simp add: id_take_nth_drop [symmetric])
  have fin: "pass2 mn cs st = pass2 mn (drop (Suc k) cs) (pass2 mn [cs ! k] stk)"
    unfolding stk_def by (subst split) (simp only: pass2_append)
  have "length (matches (pass2 mn [cs ! k] stk)) \<le> length (matches (pass2 mn cs st))"
    unfolding fin by (rule pass2_length_mono)
  moreover have "length (matches stk) \<le> length (matches (pass2 mn [cs ! k] stk))"
    by (rule pass2_length_mono)
  ultimately have "int (length (matches stk)) < mn" using short by linarith
  then have "pass2 mn [cs ! k] stk = accept (cs ! k) stk"
    using seg gap by (simp add: stk_def)
  then have "cs ! k \<in> set (matches (pass2 mn [cs ! k] stk))" by simp
  then show ?thesis unfolding fin using pass2_set_mono by blast
qed

lemma run_passes_length:
  assumes "min_insertions cfg \<le> max_insertions cfg" and "0 \<le> max_insertions cfg"
  shows "int (length (matches (run_passes cfg cs))) \<le> max_insertions cfg"
proof -
  have 1: "int (length (matches (pass1 (max_insertions cfg) cs initial_state))) \<le> max_insertions cfg"
    using assms(2) by (intro pass1_length) (simp add: initial_state_def)
  show ?thesis
    using 1 pass2_length [OF 1 assms(1)] by (simp add: run_passes_def Let_def)
qed

lemma pass1_done: "mx \<le> int (length (matches st)) \<Longrightarrow> pass1 mx cs st = st"
  by (cases cs) simp_all

lemma pass1_append: "pass1 mx (xs @ ys) st = pass1 mx ys (pass1 mx xs st)"
  by (induction xs arbitrary: st) (simp_all add: pass1_done)

lemma pass1_length_mono: "length (matches st) \<le> length (matches (pass1 mx cs st))"
proof -
  obtain e where "matches (pass1 mx cs st) = matches st @ e" using pass1_extends by blast
  then show ?thesis by simp
qed

lemma pass1_set_mono: "set (matches st) \<subseteq> set (matches (pass1 mx cs st))"
proof -
  obtain e where "matches (pass1 mx cs st) = matches st @ e" using pass1_extends by blast
  then show ?thesis by simp
qed

text \<open>
  Pass 1 is complete: a candidate that clears the strict tests in the state in which the
  loop examines it, before the maximum is reached, is accepted.
\<close>

lemma pass1_complete:
  assumes k: "k < length cs"
    and room: "int (length (matches (pass1 mx (take k cs) st))) < mx"
    and seg: "segment_idx (cs ! k) \<notin> selected_indices (pass1 mx (take k cs) st)"
    and cap: "used_count (pass1 mx (take k cs) st) (broll_id (cs ! k)) < 2"
    and gap: "5 \<le> m_start_time (cs ! k) - last_insertion_time (pass1 mx (take k cs) st)"
  shows "cs ! k \<in> set (matches (pass1 mx cs st))"
proof -
  define stk where "stk = pass1 mx (take k cs) st"
  have split: "cs = take k cs @ [cs ! k] @ drop (Suc k) cs"
    using k by (simp add: id_take_nth_drop [symmetric])
  have fin: "pass1 mx cs st = pass1 mx (drop (Suc k) cs) (pass1 mx [cs ! k] stk)"
    unfolding stk_def by (subst split) (simp only: pass1_append)
  have "pass1 mx [cs ! k] stk = accept (cs ! k) stk"
    using room seg cap gap by (simp add: stk_def)
  then have "cs ! k \<in> set (matches (pass1 mx [cs ! k] stk))" by simp
  then show ?thesis unfolding fin using pass1_set_mono by blast
qed

lemma pass1_prefix_length:
  "length (matches (pass1 mx (take k cs) st)) \<le> length (matches (pass1 mx cs st))"
proof -
  have "pass1 mx cs st = pass1 mx (drop k cs) (pass1 mx (take k cs) st)"
    using pass1_append [of mx "take k cs" "drop k cs" st] by simp
  then show ?thesis using pass1_length_mono [of "pass1 mx (take k cs) st" mx "drop k cs"] by simp
qed

text \<open>
  Claim C5. With \<open>min_insertions \<le> max_insertions\<close> (and \<open>max_insertions\<close> not negative,
  as the configuration requires) the selector returns at most \<open>max_insertions\<close>
  insertions. It returns at least \<open>min_insertions\<close>, or else everything that qualified
  is returned: every candidate that, when Pass 1 examined it, had an unused segment, a
  clip used fewer than twice and a start at least 5 s after the running last-insertion
  time was accepted by Pass 1; all acceptances of Pass 1 are returned; and every
  candidate that, when Pass 2 examined it, had an unused segment, a clip used fewer than
  twice and a start at least 3 s after the running last-insertion time is returned.
\<close>

theorem C5_count_bounds:
  assumes "select_best_matches cfg M segs ids descs = Inr out"
    and "min_insertions cfg \<le> max_insertions cfg"
    and "0 \<le> max_insertions cfg"
  shows "int (length out) \<le> max_insertions cfg \<and>
         (min_insertions cfg \<le> int (length out) \<or>
          (\<exists>pm. potential_matches (similarity_threshold cfg) M segs ids descs = Inr pm \<and>
             (let cs = sort_by_similarity pm;
                  st1 = pass1 (max_insertions cfg) cs initial_state
              in (\<forall>k < length cs.
                    let st = pass1 (max_insertions cfg) (take k cs) initial_state
                    in segment_idx (cs ! k) \<notin> selected_indices st \<and>
                       used_count st (broll_id (cs ! k)) < 2 \<and>
                       5 \<le> m_start_time (cs ! k) - last_insertion_time st
                       \<longrightarrow> cs ! k \<in> set (matches st1)) \<and>
                 set (matches st1) \<subseteq> set out \<and>
                 (\<forall>k < length cs.
                    let st = pass2 (min_insertions cfg) (take k cs) st1
                    in segment_idx (cs ! k) \<notin> selected_indices st \<and>
                       used_count st (broll_id (cs ! k)) < 2 \<and>
                       3 \<le> m_start_time (cs ! k) - last_insertion_time st
                       \<longrightarrow> cs ! k \<in> set out))))"
proof -
  from assms(1) obtain pm where
    pm: "potential_matches (similarity_threshold cfg) M segs ids descs = Inr pm" and
    out: "out = sort_key m_start_time (matches (run_passes cfg (sort_by_similarity pm)))"
    by (auto simp: select_best_matches_def split: sum.splits)
  define cs where "cs = sort_by_similarity pm"
  define st1 where "st1 = pass1 (max_insertions cfg) cs initial_state"
  have len: "length out = length (matches (run_passes cfg cs))"
    and setout: "set out = set (matches (run_passes cfg cs))"
    by (simp_all add: out cs_def)
  have upper: "int (length out) \<le> max_insertions cfg"
    using run_passes_length [OF assms(2,3)] by (simp add: len)
  have lower:
     "(\<forall>k < length cs.
         let st = pass1 (max_insertions cfg) (take k cs) initial_state
         in segment_idx (cs ! k) \<notin> selected_indices st \<and>
            used_count st (broll_id (cs ! k)) < 2 \<and>
            5 \<le> m_start_time (cs ! k) - last_insertion_time st
            \<longrightarrow> cs ! k \<in> set (matches st1)) \<and>
      set (matches st1) \<subseteq> set out \<and>
      (\<forall>k < length cs.
         let st = pass2 (min_insertions cfg) (take k cs) st1
         in segment_idx (cs ! k) \<notin> selected_indices st \<and>
            used_count st (broll_id (cs ! k)) < 2 \<and>
            3 \<le> m_start_time (cs ! k) - last_insertion_time st
            \<longrightarrow> cs ! k \<in> set out)"
    if short: "\<not> min_insertions cfg \<le> int (length out)"
  proof -
    have s1: "int (length (matches st1)) < min_insertions cfg"
    proof (rule ccontr)
      assume "\<not> int (length (matches st1)) < min_insertions cfg"
      then have "run_passes cfg cs = st1" by (simp add: run_passes_def st1_def)
      with short len \<open>\<not> int (length (matches st1)) < min_insertions cfg\<close> show False by simp
    qed
    then have run: "run_passes cfg cs = pass2 (min_insertions cfg) cs st1"
      by (simp add: run_passes_def st1_def)
    have sh: "int (length (matches (pass2 (min_insertions cfg) cs st1))) < min_insertions cfg"
      using short len run by simp
    have p1: "cs ! k \<in> set (matches st1)"
      if "k < length cs"
        "segment_idx (cs ! k)
           \<notin> selected_indices (pass1 (max_insertions cfg) (take k cs) initial_state)"
        "used_count (pass1 (max_insertions cfg) (take k cs) initial_state) (broll_id (cs ! k)) < 2"
        "5 \<le> m_start_time (cs ! k)
               - last_insertion_time (pass1 (max_insertions cfg) (take k cs) initial_state)"
      for k
    proof -
      have "length (matches (pass1 (max_insertions cfg) (take k cs) initial_state))
              \<le> length (matches st1)"
        unfolding st1_def by (rule pass1_prefix_length)
      with s1 assms(2)
      have "int (length (matches (pass1 (max_insertions cfg) (take k cs) initial_state)))
              < max_insertions cfg" by linarith
      from pass1_complete [OF that(1) this that(2,3,4)] show ?thesis by (simp add: st1_def)
    qed
    have sub: "set (matches st1) \<subseteq> set out"
      unfolding setout run by (rule pass2_set_mono)
    have p2: "cs ! k \<in> set out"
      if "k < length cs"
        "segment_idx (cs ! k) \<notin> selected_indices (pass2 (min_insertions cfg) (take k cs) st1)"
        "3 \<le> m_start_time (cs ! k) - last_insertion_time (pass2 (min_insertions cfg) (take k cs) st1)"
      for k
      unfolding setout run using pass2_complete [OF sh that] .
    from p1 sub p2 show ?thesis by (simp add: Let_def)
  qed
  show ?thesis
  proof (cases "min_insertions cfg \<le> int (length out)")
    case True
    with upper show ?thesis by simp
  next
    case False
    from lower [OF False] have "potential_matches (similarity_threshold cfg) M segs ids descs = Inr pm \<and>
             (let cs = sort_by_similarity pm;
                  st1 = pass1 (max_insertions cfg) cs initial_state
              in (\<forall>k < length cs.
                    let st = pass1 (max_insertions cfg) (take k cs) initial_state
                    in segment_idx (cs ! k) \<notin> selected_indices st \<and>
                       used_count st (broll_id (cs ! k)) < 2 \<and>
                       5 \<le> m_start_time (cs ! k) - last_insertion_time st
                       \<longrightarrow> cs ! k \<in> set (matches st1)) \<and>
                 set (matches st1) \<subseteq> set out \<and>
                 (\<forall>k < length cs.
                    let st = pass2 (min_insertions cfg) (take k cs) st1
                    in segment_idx (cs ! k) \<notin> selected_indices st \<and>
                       used_count st (broll_id (cs ! k)) < 2 \<and>
                       3 \<le> m_start_time (cs ! k) - last_insertion_time st
                       \<longrightarrow> cs ! k \<in> set out))"
      unfolding cs_def st1_def Let_def using pm by blast
    with upper show ?thesis by blast
  qed
qed

text \<open>
  Three segments at 0 s, 10 s and 13 s, each similar to its own clip. With
  \<open>min_insertions = 4\<close> and \<open>max_insertions = 6\<close> Pass 1 accepts the first two (the third is
  3 s after the second), Pass 2 adds the third, and the three returned are fewer than
  the minimum. With \<open>min_insertions = 1\<close> and \<open>max_insertions = 2\<close> Pass 1 stops at the
  maximum and two are returned.
\<close>

theorem C5_count_bounds_witness:
  "select_best_matches \<lparr>similarity_threshold = 0.72, min_insertions = 4, max_insertions = 6\<rparr>
      [[Fin 0.9, Fin 0, Fin 0], [Fin 0, Fin 0.85, Fin 0], [Fin 0, Fin 0, Fin 0.8]]
      [\<lparr>start_time = 0, end_time = 4, seg_text = ''s0''\<rparr>,
       \<lparr>start_time = 10, end_time = 13, seg_text = ''s1''\<rparr>,
       \<lparr>start_time = 13, end_time = 16, seg_text = ''s2''\<rparr>]
      [''a'', ''b'', ''c''] [(''a'', ''da''), (''b'', ''db''), (''c'', ''dc'')]
     = Inr [\<lparr>segment_idx = 0, broll_id = ''a'', similarity = Fin 0.9, m_start_time = 0, m_end_time = 4,
          aroll_text = ''s0'', broll_description = ''da''\<rparr>,
         \<lparr>segment_idx = 1, broll_id = ''b'', similarity = Fin 0.85, m_start_time = 10, m_end_time = 13,
          aroll_text = ''s1'', broll_description = ''db''\<rparr>,
         \<lparr>segment_idx = 2, broll_id = ''c'', similarity = Fin 0.8, m_start_time = 13, m_end_time = 16,
          aroll_text = ''s2'', broll_description = ''dc''\<rparr>] \<and>
   (4::int) \<le> 6 \<and> (0::int) \<le> 6 \<and>
   int (length [\<lparr>segment_idx = 0, broll_id = ''a'', similarity = Fin 0.9, m_start_time = 0, m_end_time = 4,
          aroll_text = ''s0'', broll_description = ''da''\<rparr>,
         \<lparr>segment_idx = 1, broll_id = ''b'', similarity = Fin 0.85, m_start_time = 10, m_end_time = 13,
          aroll_text = ''s1'', broll_description = ''db''\<rparr>,
         \<lparr>segment_idx = 2, broll_id = ''c'', similarity = Fin 0.8, m_start_time = 13, m_end_time = 16,
          aroll_text = ''s2'', broll_description = ''dc''\<rparr>]) \<le> 6 \<and>
   matches (pass1 6 [\<lparr>segment_idx = 0, broll_id = ''a'', similarity = Fin 0.9, m_start_time = 0, m_end_time = 4,
          aroll_text = ''s0'', broll_description = ''da''\<rparr>,
         \<lparr>segment_idx = 1, broll_id = ''b'', similarity = Fin 0.85, m_start_time = 10, m_end_time = 13,
          aroll_text = ''s1'', broll_description = ''db''\<rparr>,
         \<lparr>segment_idx = 2, broll_id = ''c'', similarity = Fin 0.8, m_start_time = 13, m_end_time = 16,
          aroll_text = ''s2'', broll_description = ''dc''\<rparr>] initial_state)
     = [\<lparr>segment_idx = 0, broll_id = ''a'', similarity = Fin 0.9, m_start_time = 0, m_end_time = 4,
          aroll_text = ''s0'', broll_description = ''da''\<rparr>,
         \<lparr>segment_idx = 1, broll_id = ''b'', similarity = Fin 0.85, m_start_time = 10, m_end_time = 13,
          aroll_text = ''s1'', broll_description = ''db''\<rparr>] \<and>
   matches (pass2 4 [\<lparr>segment_idx = 0, broll_id = ''a'', similarity = Fin 0.9, m_start_time = 0, m_end_time = 4,
          aroll_text = ''s0'', broll_description = ''da''\<rparr>,
         \<lparr>segment_idx = 1, broll_id = ''b'', similarity = Fin 0.85, m_start_time = 10, m_end_time = 13,
          aroll_text = ''s1'', broll_description = ''db''\<rparr>,
         \<lparr>segment_idx = 2, broll_id = ''c'', similarity = Fin 0.8, m_start_time = 13, m_end_time = 16,
          aroll_text = ''s2'', broll_description = ''dc''\<rparr>]
              (pass1 6 [\<lparr>segment_idx = 0, broll_id = ''a'', similarity = Fin 0.9, m_start_time = 0, m_end_time = 4,
          aroll_text = ''s0'', broll_description = ''da''\<rparr>,
         \<lparr>segment_idx = 1, broll_id = ''b'', similarity = Fin 0.85, m_start_time = 10, m_end_time = 13,
          aroll_text = ''s1'', broll_description = ''db''\<rparr>,
         \<lparr>segment_idx = 2, broll_id = ''c'', similarity = Fin 0.8, m_start_time = 13, m_end_time = 16,
          aroll_text = ''s2'', broll_description = ''dc''\<rparr>] initial_state))
     = [\<lparr>segment_idx = 0, broll_id = ''a'', similarity = Fin 0.9, m_start_time = 0, m_end_time = 4,
          aroll_text = ''s0'', broll_description = ''da''\<rparr>,
         \<lparr>segment_idx = 1, broll_id = ''b'', similarity = Fin 0.85, m_start_time = 10, m_end_time = 13,
          aroll_text = ''s1'', broll_description = ''db''\<rparr>,
         \<lparr>segment_idx = 2, broll_id = ''c'', similarity = Fin 0.8, m_start_time = 13, m_end_time = 16,
          aroll_text = ''s2'', broll_description = ''dc''\<rparr>] \<and>
   select_best_matches \<lparr>similarity_threshold = 0.72, min_insertions = 1, max_insertions = 2\<rparr>
      [[Fin 0.9, Fin 0, Fin 0], [Fin 0, Fin 0.85, Fin 0], [Fin 0, Fin 0, Fin 0.8]]
      [\<lparr>start_time = 0, end_time = 4, seg_text = ''s0''\<rparr>,
       \<lparr>start_time = 10, end_time = 13, seg_text = ''s1''\<rparr>,
       \<lparr>start_time = 13, end_time = 16, seg_text = ''s2''\<rparr>]
      [''a'', ''b'', ''c''] [(''a'', ''da''), (''b'', ''db''), (''c'', ''dc'')]
     = Inr [\<lparr>segment_idx = 0, broll_id = ''a'', similarity = Fin 0.9, m_start_time = 0, m_end_time = 4,
          aroll_text = ''s0'', broll_description = ''da''\<rparr>,
         \<lparr>segment_idx = 1, broll_id = ''b'', similarity = Fin 0.85, m_start_time = 10, m_end_time = 13,
          aroll_text = ''s1'', broll_description = ''db''\<rparr>] \<and>
   (1::int) \<le> 2 \<and> (0::int) \<le> 2 \<and>
   int (length [\<lparr>segment_idx = 0, broll_id = ''a'', similarity = Fin 0.9, m_start_time = 0, m_end_time = 4,
          aroll_text = ''s0'', broll_description = ''da''\<rparr>,
         \<lparr>segment_idx = 1, broll_id = ''b'', similarity = Fin 0.85, m_start_time = 10, m_end_time = 13,
          aroll_text = ''s1'', broll_description = ''db''\<rparr>]) \<le> 2 \<and>
   (1::int) \<le> int (length [\<lparr>segment_idx = 0, broll_id = ''a'', similarity = Fin 0.9, m_start_time = 0, m_end_time = 4,
          aroll_text = ''s0'', broll_description = ''da''\<rparr>,
         \<lparr>segment_idx = 1, broll_id = ''b'', similarity = Fin 0.85, m_start_time = 10, m_end_time = 13,
          aroll_text = ''s1'', broll_description = ''db''\<rparr>])"
proof -
  have a: "select_best_matches \<lparr>similarity_threshold = 0.72, min_insertions = 4, max_insertions = 6\<rparr>
      [[Fin 0.9, Fin 0, Fin 0], [Fin 0, Fin 0.85, Fin 0], [Fin 0, Fin 0, Fin 0.8]]
      [\<lparr>start_time = 0, end_time = 4, seg_text = ''s0''\<rparr>,
       \<lparr>start_time = 10, end_time = 13, seg_text = ''s1''\<rparr>,
       \<lparr>start_time = 13, end_time = 16, seg_text = ''s2''\<rparr>]
      [''a'', ''b'', ''c''] [(''a'', ''da''), (''b'', ''db''), (''c'', ''dc'')]
     = Inr [\<lparr>segment_idx = 0, broll_id = ''a'', similarity = Fin 0.9, m_start_time = 0, m_end_time = 4,
          aroll_text = ''s0'', broll_description = ''da''\<rparr>,
         \<lparr>segment_idx = 1, broll_id = ''b'', similarity = Fin 0.85, m_start_time = 10, m_end_time = 13,
          aroll_text = ''s1'', broll_description = ''db''\<rparr>,
         \<lparr>segment_idx = 2, broll_id = ''c'', similarity = Fin 0.8, m_start_time = 13, m_end_time = 16,
          aroll_text = ''s2'', broll_description = ''dc''\<rparr>]"
    by (simp add: select_best_matches_def potential_matches_def enumerate_eq_zip matrix_at_def
        dict_get_def sort_by_similarity_def run_passes_def initial_state_def used_count_def
        accept_def upt_rec)
  have b: "select_best_matches \<lparr>similarity_threshold = 0.72, min_insertions = 1, max_insertions = 2\<rparr>
      [[Fin 0.9, Fin 0, Fin 0], [Fin 0, Fin 0.85, Fin 0], [Fin 0, Fin 0, Fin 0.8]]
      [\<lparr>start_time = 0, end_time = 4, seg_text = ''s0''\<rparr>,
       \<lparr>start_time = 10, end_time = 13, seg_text = ''s1''\<rparr>,
       \<lparr>start_time = 13, end_time = 16, seg_text = ''s2''\<rparr>]
      [''a'', ''b'', ''c''] [(''a'', ''da''), (''b'', ''db''), (''c'', ''dc'')]
     = Inr [\<lparr>segment_idx = 0, broll_id = ''a'', similarity = Fin 0.9, m_start_time = 0, m_end_time = 4,
          aroll_text = ''s0'', broll_description = ''da''\<rparr>,
         \<lparr>segment_idx = 1, broll_id = ''b'', similarity = Fin 0.85, m_start_time = 10, m_end_time = 13,
          aroll_text = ''s1'', broll_description = ''db''\<rparr>]"
    by (simp add: select_best_matches_def potential_matches_def enumerate_eq_zip matrix_at_def
        dict_get_def sort_by_similarity_def run_passes_def initial_state_def used_count_def
        accept_def upt_rec)
  from C5_count_bounds [OF a] C5_count_bounds [OF b] a b show ?thesis
    by (simp add: initial_state_def used_count_def accept_def)
qed

section \<open>Properties of \<open>match\<close>\<close>

lemma scan_brolls_cand_ok:
  assumes "scan_brolls thr M descs i seg jl acc = Inr acc'"
    and "\<forall>c \<in> set acc. cand_ok thr M segs ids c"
    and "i < length segs" and "seg = segs ! i"
    and "\<forall>(j, b) \<in> set jl. j < length ids \<and> b = ids ! j"
  shows "\<forall>c \<in> set acc'. cand_ok thr M segs ids c"
  using assms
proof (induction jl arbitrary: acc)
  case Nil
  then show ?case by simp
next
  case (Cons p jl)
  obtain j b where p: "p = (j, b)" by (cases p)
  from Cons.prems(1) obtain s where s: "matrix_at M i j = Inr s"
    unfolding p by (auto split: sum.splits)
  show ?case
  proof (cases "fl_ge s (Fin thr)")
    case False
    with Cons.prems s have "scan_brolls thr M descs i seg jl acc = Inr acc'"
      by (simp add: p)
    from Cons.IH [OF this Cons.prems(2,3,4)] Cons.prems(5) show ?thesis by simp
  next
    case True
    with Cons.prems(1) s obtain d where d: "dict_get descs b = Inr d"
      unfolding p by (auto split: sum.splits)
    define c where "c = \<lparr>segment_idx = i, broll_id = b, similarity = s,
                               m_start_time = start_time seg, m_end_time = end_time seg,
                               aroll_text = seg_text seg, broll_description = d\<rparr>"
    have run: "scan_brolls thr M descs i seg jl (acc @ [c]) = Inr acc'"
      using Cons.prems(1) s True d by (simp add: p c_def)
    from Cons.prems(5) have jb: "j < length ids" "b = ids ! j" by (simp_all add: p)
    have "cand_ok thr M segs ids c"
      using Cons.prems(3,4) jb True s by (auto simp: cand_ok_def c_def)
    with Cons.prems(2) have "\<forall>x \<in> set (acc @ [c]). cand_ok thr M segs ids x" by simp
    from Cons.IH [OF run this Cons.prems(3,4)] Cons.prems(5) show ?thesis by simp
  qed
qed

lemma scan_segments_cand_ok:
  assumes "scan_segments thr M descs ids il acc = Inr acc'"
    and "\<forall>c \<in> set acc. cand_ok thr M segs ids c"
    and "\<forall>(i, seg) \<in> set il. i < length segs \<and> seg = segs ! i"
  shows "\<forall>c \<in> set acc'. cand_ok thr M segs ids c"
  using assms
proof (induction il arbitrary: acc)
  case Nil
  then show ?case by simp
next
  case (Cons p il)
  obtain i seg where p: "p = (i, seg)" by (cases p)
  from Cons.prems(1) obtain acc1 where
    a1: "scan_brolls thr M descs i seg (enumerate 0 ids) acc = Inr acc1" and
    rest: "scan_segments thr M descs ids il acc1 = Inr acc'"
    unfolding p by (auto split: sum.splits)
  from Cons.prems(3) have i: "i < length segs" "seg = segs ! i" by (simp_all add: p)
  have "\<forall>(j, b) \<in> set (enumerate 0 ids). j < length ids \<and> b = ids ! j"
    by (auto simp: in_set_enumerate_eq)
  from scan_brolls_cand_ok [OF a1 Cons.prems(2) i this]
  have "\<forall>c \<in> set acc1. cand_ok thr M segs ids c" .
  from Cons.IH [OF rest this] Cons.prems(3) show ?case by simp
qed

lemma potential_matches_cand_ok:
  assumes "potential_matches thr M segs ids descs = Inr pm"
  shows "\<forall>c \<in> set pm. cand_ok thr M segs ids c"
proof -
  have "\<forall>(i, seg) \<in> set (enumerate 0 segs). i < length segs \<and> seg = segs ! i"
    by (auto simp: in_set_enumerate_eq)
  with scan_segments_cand_ok [OF assms [unfolded potential_matches_def], of segs] show ?thesis
    by simp
qed

lemma set_insert_desc: "set (insert_desc c cs) = insert c (set cs)"
  by (induction cs) auto

lemma set_sort_by_similarity: "set (sort_by_similarity cs) = set cs"
  unfolding sort_by_similarity_def by (induction cs) (simp_all add: set_insert_desc)

lemma pass1_subset: "set (matches (pass1 mx cs st)) \<subseteq> set (matches st) \<union> set cs"
proof (induction cs arbitrary: st)
  case Nil
  then show ?case by simp
next
  case (Cons c cs)
  from Cons.IH [of "accept c st"]
  have "set (matches (pass1 mx cs (accept c st))) \<subseteq> set (matches st) \<union> set (c # cs)"
    by auto
  with Cons.IH [of st] show ?case by auto
qed

lemma pass2_subset: "set (matches (pass2 mn cs st)) \<subseteq> set (matches st) \<union> set cs"
proof (induction cs arbitrary: st)
  case Nil
  then show ?case by simp
next
  case (Cons c cs)
  from Cons.IH [of "accept c st"]
  have "set (matches (pass2 mn cs (accept c st))) \<subseteq> set (matches st) \<union> set (c # cs)"
    by auto
  with Cons.IH [of st] show ?case by auto
qed

lemma run_passes_subset: "set (matches (run_passes cfg cs)) \<subseteq> set cs"
proof -
  have 1: "set (matches (pass1 (max_insertions cfg) cs initial_state)) \<subseteq> set cs"
    using pass1_subset [of "max_insertions cfg" cs initial_state] by (simp add: initial_state_def)
  with pass2_subset [of "min_insertions cfg" cs "pass1 (max_insertions cfg) cs initial_state"]
  show ?thesis by (auto simp: run_passes_def Let_def)
qed

lemma select_best_matches_cand_ok:
  assumes "select_best_matches cfg M segs ids descs = Inr ms"
  shows "\<forall>c \<in> set ms. cand_ok (similarity_threshold cfg) M segs ids c"
proof -
  from assms obtain pm where
    pm: "potential_matches (similarity_threshold cfg) M segs ids descs = Inr pm" and
    ms: "ms = sort_key m_start_time (matches (run_passes cfg (sort_by_similarity pm)))"
    by (auto simp: select_best_matches_def split: sum.splits)
  have "set ms \<subseteq> set pm"
    using run_passes_subset [of cfg "sort_by_similarity pm"]
    by (simp add: ms set_sort_by_similarity)
  with potential_matches_cand_ok [OF pm] show ?thesis by blast
qed

lemma format_matches_elem:
  assumes "format_matches segs ms = Inr out" and "ins \<in> set out"
  shows "\<exists>c \<in> set ms. format_match segs c = Inr ins"
  using assms
proof (induction ms arbitrary: out)
  case Nil
  then show ?case by simp
next
  case (Cons m ms)
  from Cons.prems(1) obtain f fs where f: "format_match segs m = Inr f"
    and fs: "format_matches segs ms = Inr fs" and out: "out = f # fs"
    by (auto split: sum.splits)
  show ?case
  proof (cases "ins = f")
    case True
    with f show ?thesis by auto
  next
    case False
    with Cons.prems(2) out have "ins \<in> set fs" by simp
    from Cons.IH [OF fs this] show ?thesis by auto
  qed
qed

lemma match_elem:
  assumes "match cfg ge segs descs = Inr out" and "ins \<in> set out"
  shows "\<exists>M c. cand_ok (similarity_threshold cfg) M segs (map fst descs) c \<and>
               format_match segs c = Inr ins \<and>
               (\<exists>A B. calculate_similarity_matrix A B = Inr M)"
proof -
  from assms(1) obtain A B M ms where
    M: "calculate_similarity_matrix A B = Inr M" and
    sel: "select_best_matches cfg M segs (map fst descs) descs = Inr ms" and
    fm: "format_matches segs ms = Inr out"
    by (auto simp: match_def Let_def split: if_splits sum.splits)
  from format_matches_elem [OF fm assms(2)] obtain c where
    c: "c \<in> set ms" "format_match segs c = Inr ins" by blast
  with select_best_matches_cand_ok [OF sel] M show ?thesis by blast
qed

lemma round_half_even_near: "\<bar>of_int (round_half_even y) - y\<bar> \<le> 1/2"
proof -
  have "of_int \<lfloor>y\<rfloor> \<le> y" "y < of_int \<lfloor>y\<rfloor> + 1" by linarith+
  then show ?thesis
    by (auto simp: round_half_even_def Let_def)
qed

lemma py_round_near: "\<bar>py_round n x - x\<bar> \<le> 1 / (2 * 10 ^ n)"
proof -
  have p: "(0::real) < 10 ^ n" by simp
  have "py_round n x - x = (of_int (round_half_even (x * 10 ^ n)) - x * 10 ^ n) / 10 ^ n"
    by (simp add: py_round_def diff_divide_distrib)
  then have "\<bar>py_round n x - x\<bar> = \<bar>of_int (round_half_even (x * 10 ^ n)) - x * 10 ^ n\<bar> / 10 ^ n"
    by simp
  also have "\<dots> \<le> (1/2) / 10 ^ n"
    using round_half_even_near [of "x * 10 ^ n"] p by (intro divide_right_mono) simp_all
  finally show ?thesis by simp
qed

lemma py_round_decimal: "\<exists>k::int. py_round n x = of_int k / 10 ^ n"
  by (auto simp: py_round_def)

lemma no_inf_add: "no_inf a \<Longrightarrow> no_inf b \<Longrightarrow> no_inf (fl_add a b)"
  by (cases a; cases b) (simp_all add: no_inf_def)

lemma no_inf_mul: "no_inf a \<Longrightarrow> no_inf b \<Longrightarrow> no_inf (fl_mul a b)"
  by (cases a; cases b) (simp_all add: no_inf_def)

lemma no_inf_foldl: "no_inf a \<Longrightarrow> \<forall>x \<in> set xs. no_inf x \<Longrightarrow> no_inf (foldl fl_add a xs)"
  by (induction xs arbitrary: a) (simp_all add: no_inf_add)

lemma sum_squares_zero: "sum_list (map (\<lambda>x. x * x) v) = 0 \<Longrightarrow> x \<in> set v \<Longrightarrow> x = (0::real)"
proof (induction v)
  case Nil
  then show ?case by simp
next
  case (Cons a v)
  have nn: "0 \<le> sum_list (map (\<lambda>x. x * x) v)"
    by (intro sum_list_nonneg) auto
  have "0 \<le> a * a" by simp
  with Cons.prems(1) nn have "a * a = 0" and "sum_list (map (\<lambda>x. x * x) v) = 0"
    by (simp_all add: add_nonneg_eq_0_iff)
  with Cons show ?case by auto
qed

lemma no_inf_np_div: "x \<in> set v \<Longrightarrow> no_inf (np_div x (norm2 v))"
  using sum_squares_zero [of v x]
  by (auto simp: np_div_def no_inf_def norm2_def)

lemma no_inf_normalize_rows: "r \<in> set (normalize_rows A) \<Longrightarrow> x \<in> set r \<Longrightarrow> no_inf x"
  by (auto simp: normalize_rows_def no_inf_np_div)

lemma no_inf_fl_dot:
  assumes "\<forall>x \<in> set u. no_inf x" and "\<forall>x \<in> set v. no_inf x"
  shows "no_inf (fl_dot u v)"
proof -
  have "no_inf p" if "p \<in> set (map2 fl_mul u v)" for p
  proof -
    from that obtain a b where "(a, b) \<in> set (zip u v)" and p: "p = fl_mul a b" by auto
    then have "a \<in> set u" "b \<in> set v" by (auto dest: set_zip_leftD set_zip_rightD)
    with assms show ?thesis by (simp add: p no_inf_mul)
  qed
  moreover have "no_inf (Fin 0)" by (simp add: no_inf_def)
  ultimately show ?thesis unfolding fl_dot_def by (intro no_inf_foldl) blast+
qed

lemma calculate_similarity_matrix_no_inf:
  assumes "calculate_similarity_matrix A B = Inr M" and "matrix_at M i j = Inr s"
  shows "no_inf s"
proof -
  from assms(1) have M: "M = map (\<lambda>a. map (\<lambda>b. fl_dot a b) (normalize_rows B)) (normalize_rows A)"
    by (auto simp: calculate_similarity_matrix_def Let_def split: if_splits)
  from assms(2) have i: "i < length M" and j: "j < length (M ! i)" and s: "s = M ! i ! j"
    by (auto simp: matrix_at_def split: if_splits)
  from i have ia: "i < length (normalize_rows A)" by (simp add: M)
  with j have jb: "j < length (normalize_rows B)" by (simp add: M)
  have "s = fl_dot (normalize_rows A ! i) (normalize_rows B ! j)"
    using ia jb by (simp add: s M)
  moreover have "\<forall>x \<in> set (normalize_rows A ! i). no_inf x"
    using no_inf_normalize_rows [of "normalize_rows A ! i" A] ia by simp
  moreover have "\<forall>x \<in> set (normalize_rows B ! j). no_inf x"
    using no_inf_normalize_rows [of "normalize_rows B ! j" B] jb by simp
  ultimately show ?thesis by (simp add: no_inf_fl_dot)
qed

lemma fl_ge_no_inf: "fl_ge s (Fin t) \<Longrightarrow> no_inf s \<Longrightarrow> \<exists>r. s = Fin r \<and> t \<le> r"
  by (cases s) (simp_all add: no_inf_def)

text \<open>The scenario of the specification: one segment at 27.3 s to 31.0 s, one clip.\<close>

lemma match_example: "match \<lparr>similarity_threshold = 0.72, min_insertions = 3, max_insertions = 6\<rparr>
     (\<lambda>texts. Inr (map (\<lambda>t. [1, 0]) texts))
     [\<lparr>start_time = 27.3, end_time = 31, seg_text = ''product demonstration''\<rparr>]
     [(''broll_1'', ''product demo'')] =
   Inr [\<lparr>start_sec = 27.3, duration_sec = 3.7, i_broll_id = ''broll_1'', confidence = Fin 1,
         reason = generate_reason ''product demonstration'' ''product demo'' (Fin 1)\<rparr>]"
  by (simp add: match_def dict_get_def calculate_similarity_matrix_def well_shaped_def
      normalize_rows_def norm2_def np_div_def fl_dot_def select_best_matches_def
      potential_matches_def enumerate_eq_zip matrix_at_def sort_by_similarity_def run_passes_def
      initial_state_def used_count_def accept_def format_match_def py_round_def
      round_half_even_def Let_def)

lemma format_matches_nth:
  assumes "format_matches segs ms = Inr out"
  shows "length out = length ms \<and> (\<forall>k < length ms. format_match segs (ms ! k) = Inr (out ! k))"
  using assms
proof (induction ms arbitrary: out)
  case Nil
  then show ?case by simp
next
  case (Cons m ms)
  from Cons.prems obtain f fs where f: "format_match segs m = Inr f"
    and fs: "format_matches segs ms = Inr fs" and out: "out = f # fs"
    by (auto split: sum.splits)
  from Cons.IH [OF fs] have len: "length fs = length ms"
    and nth: "\<forall>k < length ms. format_match segs (ms ! k) = Inr (fs ! k)" by simp_all
  have "format_match segs ((m # ms) ! k) = Inr (out ! k)" if "k < length (m # ms)" for k
  proof (cases k)
    case 0
    with f out show ?thesis by simp
  next
    case (Suc k')
    with that nth out show ?thesis by simp
  qed
  with len out show ?case by simp
qed

lemma match_stages:
  assumes "match cfg get_embeddings aroll_segments broll_descriptions = Inr out"
  shows "\<exists>texts A B M ms.
           dict_get_all broll_descriptions (map fst broll_descriptions) = Inr texts \<and>
           get_embeddings (map seg_text aroll_segments) = Inr A \<and>
           get_embeddings texts = Inr B \<and>
           calculate_similarity_matrix A B = Inr M \<and>
           select_best_matches cfg M aroll_segments (map fst broll_descriptions)
             broll_descriptions = Inr ms \<and>
           format_matches aroll_segments ms = Inr out"
  using assms by (auto simp: match_def Let_def split: if_splits sum.splits)

text \<open>
  Claim C6. The list returned by \<open>match\<close> is, position by position, the formatting of
  the candidates that the selector returned on the similarity matrix of the embeddings.
  For the candidate at position \<open>k\<close>, with segment index \<open>segment_idx\<close>: the index is
  in range, the candidate's clip is the clip \<open>j\<close> of the description dict whose matrix cell
  \<open>(segment_idx, j)\<close> is the candidate's similarity and reaches the threshold, and the
  insertion at position \<open>k\<close> carries that clip, \<open>start_sec\<close> equal to the start time of
  segment \<open>segment_idx\<close> rounded to two decimals and \<open>duration_sec\<close> equal to that segment's
  end time minus its start time rounded to two decimals, both within 0.005 of the exact
  values.
\<close>

theorem C6_insertion_spans_its_segment:
  assumes "match cfg get_embeddings aroll_segments broll_descriptions = Inr out"
  shows "\<exists>texts A B M ms.
           dict_get_all broll_descriptions (map fst broll_descriptions) = Inr texts \<and>
           get_embeddings (map seg_text aroll_segments) = Inr A \<and>
           get_embeddings texts = Inr B \<and>
           calculate_similarity_matrix A B = Inr M \<and>
           select_best_matches cfg M aroll_segments (map fst broll_descriptions)
             broll_descriptions = Inr ms \<and>
           length out = length ms \<and>
           (\<forall>k < length ms.
              segment_idx (ms ! k) < length aroll_segments \<and>
              (\<exists>j < length broll_descriptions.
                 broll_id (ms ! k) = fst (broll_descriptions ! j) \<and>
                 matrix_at M (segment_idx (ms ! k)) j = Inr (similarity (ms ! k))) \<and>
              fl_ge (similarity (ms ! k)) (Fin (similarity_threshold cfg)) \<and>
              i_broll_id (out ! k) = broll_id (ms ! k) \<and>
              start_sec (out ! k) =
                py_round 2 (start_time (aroll_segments ! segment_idx (ms ! k))) \<and>
              duration_sec (out ! k) =
                py_round 2 (end_time (aroll_segments ! segment_idx (ms ! k))
                            - start_time (aroll_segments ! segment_idx (ms ! k))) \<and>
              \<bar>start_sec (out ! k) - start_time (aroll_segments ! segment_idx (ms ! k))\<bar>
                \<le> 0.005 \<and>
              \<bar>duration_sec (out ! k)
                 - (end_time (aroll_segments ! segment_idx (ms ! k))
                    - start_time (aroll_segments ! segment_idx (ms ! k)))\<bar> \<le> 0.005)"
proof -
  from match_stages [OF assms] obtain texts A B M ms where
    texts: "dict_get_all broll_descriptions (map fst broll_descriptions) = Inr texts" and
    A: "get_embeddings (map seg_text aroll_segments) = Inr A" and
    B: "get_embeddings texts = Inr B" and
    M: "calculate_similarity_matrix A B = Inr M" and
    sel: "select_best_matches cfg M aroll_segments (map fst broll_descriptions)
            broll_descriptions = Inr ms" and
    fm: "format_matches aroll_segments ms = Inr out" by blast
  from format_matches_nth [OF fm] have len: "length out = length ms"
    and nth: "\<forall>k < length ms. format_match aroll_segments (ms ! k) = Inr (out ! k)" by simp_all
  have each:
    "segment_idx (ms ! k) < length aroll_segments \<and>
     (\<exists>j < length broll_descriptions.
        broll_id (ms ! k) = fst (broll_descriptions ! j) \<and>
        matrix_at M (segment_idx (ms ! k)) j = Inr (similarity (ms ! k))) \<and>
     fl_ge (similarity (ms ! k)) (Fin (similarity_threshold cfg)) \<and>
     i_broll_id (out ! k) = broll_id (ms ! k) \<and>
     start_sec (out ! k) = py_round 2 (start_time (aroll_segments ! segment_idx (ms ! k))) \<and>
     duration_sec (out ! k) =
       py_round 2 (end_time (aroll_segments ! segment_idx (ms ! k))
                   - start_time (aroll_segments ! segment_idx (ms ! k))) \<and>
     \<bar>start_sec (out ! k) - start_time (aroll_segments ! segment_idx (ms ! k))\<bar> \<le> 0.005 \<and>
     \<bar>duration_sec (out ! k)
        - (end_time (aroll_segments ! segment_idx (ms ! k))
           - start_time (aroll_segments ! segment_idx (ms ! k)))\<bar> \<le> 0.005"
    if k: "k < length ms" for k
  proof -
    define c where "c = ms ! k"
    have "c \<in> set ms" using k by (simp add: c_def)
    with select_best_matches_cand_ok [OF sel]
    have ok: "cand_ok (similarity_threshold cfg) M aroll_segments (map fst broll_descriptions) c"
      by blast
    then have i: "segment_idx c < length aroll_segments"
      and ge: "fl_ge (similarity c) (Fin (similarity_threshold cfg))"
      by (simp_all add: cand_ok_def)
    from ok obtain j where "j < length (map fst broll_descriptions)"
      and "broll_id c = map fst broll_descriptions ! j"
      and cell: "matrix_at M (segment_idx c) j = Inr (similarity c)"
      unfolding cand_ok_def by blast
    then have j: "j < length broll_descriptions" "broll_id c = fst (broll_descriptions ! j)"
      by simp_all
    from nth k have f: "format_match aroll_segments c = Inr (out ! k)" by (simp add: c_def)
    from f i have eq: "out ! k =
        \<lparr>start_sec = py_round 2 (start_time (aroll_segments ! segment_idx c)),
         duration_sec = py_round 2 (end_time (aroll_segments ! segment_idx c)
                                    - start_time (aroll_segments ! segment_idx c)),
         i_broll_id = broll_id c,
         confidence = fl_round 3 (similarity c),
         reason = generate_reason (aroll_text c) (broll_description c) (similarity c)\<rparr>"
      by (auto simp: format_match_def Let_def)
    have
      s: "start_sec (out ! k) = py_round 2 (start_time (aroll_segments ! segment_idx c))" and
      d: "duration_sec (out ! k) = py_round 2 (end_time (aroll_segments ! segment_idx c)
                                      - start_time (aroll_segments ! segment_idx c))" and
      b: "i_broll_id (out ! k) = broll_id c"
      by (simp_all add: eq)
    have ns: "\<bar>start_sec (out ! k) - start_time (aroll_segments ! segment_idx c)\<bar> \<le> 0.005"
      using py_round_near [of 2 "start_time (aroll_segments ! segment_idx c)"] by (simp add: s)
    have nd: "\<bar>duration_sec (out ! k)
                - (end_time (aroll_segments ! segment_idx c)
                   - start_time (aroll_segments ! segment_idx c))\<bar> \<le> 0.005"
      using py_round_near [of 2 "end_time (aroll_segments ! segment_idx c)
                                   - start_time (aroll_segments ! segment_idx c)"]
      by (simp add: d)
    from i j cell ge b s d ns nd show ?thesis unfolding c_def by blast
  qed
  from texts A B M sel len each show ?thesis by blast
qed

text \<open>
  Two segments and one clip; only the second segment (27.3 s to 31.0 s) is similar to the
  clip. The selector returns the candidate of segment 1 and clip 0, and the insertion has
  the span of segment 1, not of segment 0.
\<close>

theorem C6_insertion_spans_witness:
  "match \<lparr>similarity_threshold = 0.72, min_insertions = 3, max_insertions = 6\<rparr>
     (\<lambda>texts. Inr (map (\<lambda>t. if t = ''intro'' then [0, 1] else [1, 0]) texts))
     [\<lparr>start_time = 0, end_time = 4, seg_text = ''intro''\<rparr>,
      \<lparr>start_time = 27.3, end_time = 31, seg_text = ''product demonstration''\<rparr>]
     [(''broll_1'', ''product demo'')] =
   Inr [\<lparr>start_sec = 27.3, duration_sec = 3.7, i_broll_id = ''broll_1'', confidence = Fin 1,
         reason = generate_reason ''product demonstration'' ''product demo'' (Fin 1)\<rparr>] \<and>
   calculate_similarity_matrix [[0, 1], [1, 0]] [[1, 0]] = Inr [[Fin 0], [Fin 1]] \<and>
   select_best_matches \<lparr>similarity_threshold = 0.72, min_insertions = 3, max_insertions = 6\<rparr>
     [[Fin 0], [Fin 1]]
     [\<lparr>start_time = 0, end_time = 4, seg_text = ''intro''\<rparr>,
      \<lparr>start_time = 27.3, end_time = 31, seg_text = ''product demonstration''\<rparr>]
     [''broll_1''] [(''broll_1'', ''product demo'')] =
   Inr [\<lparr>segment_idx = 1, broll_id = ''broll_1'', similarity = Fin 1, m_start_time = 27.3,
         m_end_time = 31, aroll_text = ''product demonstration'',
         broll_description = ''product demo''\<rparr>] \<and>
   py_round 2 27.3 = 27.3 \<and> py_round 2 (31 - 27.3) = 3.7"
proof -
  have e: "match \<lparr>similarity_threshold = 0.72, min_insertions = 3, max_insertions = 6\<rparr>
     (\<lambda>texts. Inr (map (\<lambda>t. if t = ''intro'' then [0, 1] else [1, 0]) texts))
     [\<lparr>start_time = 0, end_time = 4, seg_text = ''intro''\<rparr>,
      \<lparr>start_time = 27.3, end_time = 31, seg_text = ''product demonstration''\<rparr>]
     [(''broll_1'', ''product demo'')] =
   Inr [\<lparr>start_sec = 27.3, duration_sec = 3.7, i_broll_id = ''broll_1'', confidence = Fin 1,
         reason = generate_reason ''product demonstration'' ''product demo'' (Fin 1)\<rparr>]"
    by (simp add: match_def dict_get_def calculate_similarity_matrix_def well_shaped_def
        normalize_rows_def norm2_def np_div_def fl_dot_def select_best_matches_def
        potential_matches_def enumerate_eq_zip matrix_at_def sort_by_similarity_def
        run_passes_def initial_state_def used_count_def accept_def format_match_def
        py_round_def round_half_even_def Let_def upt_rec)
  from C6_insertion_spans_its_segment [OF e] e show ?thesis
    by (simp add: calculate_similarity_matrix_def well_shaped_def normalize_rows_def norm2_def
        np_div_def fl_dot_def select_best_matches_def potential_matches_def enumerate_eq_zip
        matrix_at_def dict_get_def sort_by_similarity_def run_passes_def initial_state_def
        used_count_def accept_def py_round_def round_half_even_def Let_def upt_rec)
qed

text \<open>
  Claim C10. Every insertion returned by \<open>match\<close> has \<open>start_sec\<close> and
  \<open>duration_sec\<close> that are whole numbers of hundredths, and a finite \<open>confidence\<close> that
  is a whole number of thousandths and is at least the similarity threshold less the
  rounding error 0.0005.
\<close>

theorem C10_output_rounding:
  assumes "match cfg get_embeddings aroll_segments broll_descriptions = Inr out"
  shows "\<forall>ins \<in> set out.
           (\<exists>k::int. start_sec ins = of_int k / 100) \<and>
           (\<exists>k::int. duration_sec ins = of_int k / 100) \<and>
           (\<exists>k::int. confidence ins = Fin (of_int k / 1000) \<and>
                     similarity_threshold cfg - 0.0005 \<le> of_int k / 1000)"
proof
  fix ins assume "ins \<in> set out"
  from match_elem [OF assms this] obtain M c A B where
    ok: "cand_ok (similarity_threshold cfg) M aroll_segments (map fst broll_descriptions) c" and
    f: "format_match aroll_segments c = Inr ins" and
    M: "calculate_similarity_matrix A B = Inr M" by blast
  from ok obtain j where i: "segment_idx c < length aroll_segments"
    and ge: "fl_ge (similarity c) (Fin (similarity_threshold cfg))"
    and cell: "matrix_at M (segment_idx c) j = Inr (similarity c)"
    by (auto simp: cand_ok_def)
  from fl_ge_no_inf [OF ge calculate_similarity_matrix_no_inf [OF M cell]]
  obtain r where r: "similarity c = Fin r" "similarity_threshold cfg \<le> r" by blast
  from f i r have
    s: "start_sec ins = py_round 2 (start_time (aroll_segments ! segment_idx c))" and
    d: "duration_sec ins = py_round 2 (end_time (aroll_segments ! segment_idx c)
                                      - start_time (aroll_segments ! segment_idx c))" and
    cf: "confidence ins = Fin (py_round 3 r)"
    by (auto simp: format_match_def Let_def)
  obtain k where k: "py_round 3 r = of_int k / 10 ^ 3" using py_round_decimal by blast
  have "\<bar>py_round 3 r - r\<bar> \<le> 1 / 2000"
    using py_round_near [of 3 r] by simp
  then have "r - 1 / 2000 \<le> py_round 3 r" by linarith
  moreover have "(0.0005::real) = 1 / 2000" by simp
  ultimately have "similarity_threshold cfg - 0.0005 \<le> py_round 3 r"
    using r(2) by linarith
  with k cf have "\<exists>k::int. confidence ins = Fin (of_int k / 1000) \<and>
                     similarity_threshold cfg - 0.0005 \<le> of_int k / 1000"
    by (intro exI [of _ k]) simp
  moreover have "\<exists>k::int. start_sec ins = of_int k / 100"
    using py_round_decimal [of 2] s by simp
  moreover have "\<exists>k::int. duration_sec ins = of_int k / 100"
    using py_round_decimal [of 2] d by simp
  ultimately show "(\<exists>k::int. start_sec ins = of_int k / 100) \<and>
           (\<exists>k::int. duration_sec ins = of_int k / 100) \<and>
           (\<exists>k::int. confidence ins = Fin (of_int k / 1000) \<and>
                     similarity_threshold cfg - 0.0005 \<le> of_int k / 1000)" by blast
qed

theorem C10_output_rounding_witness:
  "match \<lparr>similarity_threshold = 0.72, min_insertions = 3, max_insertions = 6\<rparr>
     (\<lambda>texts. Inr (map (\<lambda>t. [1, 0]) texts))
     [\<lparr>start_time = 27.3, end_time = 31, seg_text = ''product demonstration''\<rparr>]
     [(''broll_1'', ''product demo'')] =
   Inr [\<lparr>start_sec = 27.3, duration_sec = 3.7, i_broll_id = ''broll_1'', confidence = Fin 1,
         reason = generate_reason ''product demonstration'' ''product demo'' (Fin 1)\<rparr>] \<and>
   (27.3::real) = real_of_int 2730 / 100 \<and> (3.7::real) = real_of_int 370 / 100 \<and>
   Fin 1 = Fin (real_of_int 1000 / 1000) \<and> (0.72::real) - 0.0005 \<le> real_of_int 1000 / 1000"
  using match_example C10_output_rounding [OF match_example] by simp

lemma dict_get_all_keys:
  assumes "distinct (map fst d)" and "set xs \<subseteq> set d"
  shows "dict_get_all d (map fst xs) = Inr (map snd xs)"
  using assms(2)
proof (induction xs)
  case Nil
  then show ?case by simp
next
  case (Cons x xs)
  then have "(fst x, snd x) \<in> set d" by simp
  with assms(1) have "map_of d (fst x) = Some (snd x)" by (rule map_of_is_SomeI)
  with Cons show ?case by (simp add: dict_get_def)
qed

lemma dict_get_key: "b \<in> fst ` set d \<Longrightarrow> \<exists>v. dict_get d b = Inr v"
  by (cases "map_of d b") (auto simp: dict_get_def map_of_eq_None_iff)

lemma scan_brolls_total:
  assumes "i < length M"
    and "\<forall>(j, b) \<in> set jl. j < length (M ! i) \<and> b \<in> fst ` set descs"
  shows "\<exists>acc'. scan_brolls thr M descs i seg jl acc = Inr acc' \<and>
           ((\<forall>s \<in> set (M ! i). \<not> fl_ge s (Fin thr)) \<longrightarrow> acc' = acc)"
  using assms(2)
proof (induction jl arbitrary: acc)
  case Nil
  then show ?case by simp
next
  case (Cons p jl)
  obtain j b where p: "p = (j, b)" by (cases p)
  from Cons.prems have j: "j < length (M ! i)" and b: "b \<in> fst ` set descs"
    and rest: "\<forall>(j, b) \<in> set jl. j < length (M ! i) \<and> b \<in> fst ` set descs"
    by (simp_all add: p)
  from assms(1) j have cell: "matrix_at M i j = Inr (M ! i ! j)" by (simp add: matrix_at_def)
  from dict_get_key [OF b] obtain v where v: "dict_get descs b = Inr v" by blast
  have mem: "M ! i ! j \<in> set (M ! i)" using j by simp
  show ?case
  proof (cases "fl_ge (M ! i ! j) (Fin thr)")
    case True
    with mem have some: "\<not> (\<forall>s \<in> set (M ! i). \<not> fl_ge s (Fin thr))" by blast
    define c where "c = \<lparr>segment_idx = i, broll_id = b, similarity = M ! i ! j,
                               m_start_time = start_time seg, m_end_time = end_time seg,
                               aroll_text = seg_text seg, broll_description = v\<rparr>"
    from Cons.IH [OF rest, of "acc @ [c]"] obtain acc' where
      "scan_brolls thr M descs i seg jl (acc @ [c]) = Inr acc'" by blast
    with True cell v have "scan_brolls thr M descs i seg (p # jl) acc = Inr acc'"
      by (simp add: p c_def)
    with some show ?thesis by blast
  next
    case False
    with Cons.IH [OF rest, of acc] cell show ?thesis by (simp add: p)
  qed
qed

lemma scan_segments_total:
  assumes "\<forall>(i, seg) \<in> set il. i < length M \<and> length (M ! i) = length ids"
    and "set ids \<subseteq> fst ` set descs"
  shows "\<exists>acc'. scan_segments thr M descs ids il acc = Inr acc' \<and>
           ((\<forall>row \<in> set M. \<forall>s \<in> set row. \<not> fl_ge s (Fin thr)) \<longrightarrow> acc' = acc)"
  using assms(1)
proof (induction il arbitrary: acc)
  case Nil
  then show ?case by simp
next
  case (Cons p il)
  obtain i seg where p: "p = (i, seg)" by (cases p)
  from Cons.prems have i: "i < length M" and len: "length (M ! i) = length ids"
    and rest: "\<forall>(i, seg) \<in> set il. i < length M \<and> length (M ! i) = length ids"
    by (simp_all add: p)
  have "\<forall>(j, b) \<in> set (enumerate 0 ids). j < length (M ! i) \<and> b \<in> fst ` set descs"
    using assms(2) len by (auto simp: in_set_enumerate_eq)
  from scan_brolls_total [OF i this, of thr seg acc] obtain acc1 where
    a1: "scan_brolls thr M descs i seg (enumerate 0 ids) acc = Inr acc1" and
    e1: "(\<forall>s \<in> set (M ! i). \<not> fl_ge s (Fin thr)) \<longrightarrow> acc1 = acc" by blast
  from Cons.IH [OF rest, of acc1] obtain acc' where
    a2: "scan_segments thr M descs ids il acc1 = Inr acc'" and
    e2: "(\<forall>row \<in> set M. \<forall>s \<in> set row. \<not> fl_ge s (Fin thr)) \<longrightarrow> acc' = acc1" by blast
  have "M ! i \<in> set M" using i by simp
  with e1 e2 have "(\<forall>row \<in> set M. \<forall>s \<in> set row. \<not> fl_ge s (Fin thr)) \<longrightarrow> acc' = acc"
    by blast
  with a1 a2 show ?case by (simp add: p)
qed

lemma format_matches_total:
  "\<forall>c \<in> set ms. segment_idx c < length segs \<Longrightarrow> \<exists>out. format_matches segs ms = Inr out"
proof (induction ms)
  case Nil
  then show ?case by simp
next
  case (Cons m ms)
  then obtain out where "format_matches segs ms = Inr out" by auto
  moreover from Cons.prems have "\<exists>f. format_match segs m = Inr f"
    by (simp add: format_match_def Let_def)
  ultimately show ?case by auto
qed

lemma select_best_matches_total:
  assumes "length M = length segs" and "\<forall>row \<in> set M. length row = length ids"
    and "set ids \<subseteq> fst ` set descs"
  shows "\<exists>ms. select_best_matches cfg M segs ids descs = Inr ms \<and>
           ((\<forall>row \<in> set M. \<forall>s \<in> set row. \<not> fl_ge s (Fin (similarity_threshold cfg))) \<longrightarrow> ms = [])"
proof -
  have "\<forall>(i, seg) \<in> set (enumerate 0 segs). i < length M \<and> length (M ! i) = length ids"
    using assms(1,2) by (auto simp: in_set_enumerate_eq)
  from scan_segments_total [OF this assms(3), of "similarity_threshold cfg" "[]"]
  obtain pm where pm: "potential_matches (similarity_threshold cfg) M segs ids descs = Inr pm"
    and e: "(\<forall>row \<in> set M. \<forall>s \<in> set row. \<not> fl_ge s (Fin (similarity_threshold cfg))) \<longrightarrow> pm = []"
    unfolding potential_matches_def by blast
  have "sort_key m_start_time (matches (run_passes cfg (sort_by_similarity []))) = []"
    by (simp add: sort_by_similarity_def run_passes_def initial_state_def Let_def)
  with pm e show ?thesis by (auto simp: select_best_matches_def)
qed

lemma calculate_similarity_matrix_shape:
  assumes "A \<noteq> []" and "B \<noteq> []"
    and "list_all (\<lambda>v. length v = d) A" and "list_all (\<lambda>v. length v = d) B"
  shows "\<exists>M. calculate_similarity_matrix A B = Inr M \<and> length M = length A \<and>
           (\<forall>row \<in> set M. length row = length B)"
proof -
  have "hd A \<in> set A" using assms(1) by simp
  with assms(3) have "length (hd A) = d" by (simp add: list_all_iff)
  with assms have "well_shaped A B" by (simp add: well_shaped_def)
  then show ?thesis
    by (auto simp: calculate_similarity_matrix_def Let_def normalize_rows_def)
qed

text \<open>
  Claim C8. When the provider succeeds (one vector of the same dimension per text) and
  the keys of the description dict are distinct, \<open>match\<close> raises exactly when the
  segment list or the description dict is empty; and when both are non-empty and no
  cell of the similarity matrix reaches the threshold, it returns the empty list.
\<close>

theorem C8_match_raises_only_on_empty_input:
  assumes keys: "distinct (map fst broll_descriptions)"
    and pa: "provider_ok get_embeddings (map seg_text aroll_segments) d"
    and pb: "provider_ok get_embeddings (map snd broll_descriptions) d"
  shows "(isl (match cfg get_embeddings aroll_segments broll_descriptions) \<longleftrightarrow>
            aroll_segments = [] \<or> broll_descriptions = []) \<and>
         (aroll_segments \<noteq> [] \<and> broll_descriptions \<noteq> [] \<and>
          (\<forall>A B M. get_embeddings (map seg_text aroll_segments) = Inr A \<and>
                   get_embeddings (map snd broll_descriptions) = Inr B \<and>
                   calculate_similarity_matrix A B = Inr M \<longrightarrow>
                   (\<forall>row \<in> set M. \<forall>s \<in> set row. \<not> fl_ge s (Fin (similarity_threshold cfg))))
          \<longrightarrow> match cfg get_embeddings aroll_segments broll_descriptions = Inr [])"
proof (cases "aroll_segments = [] \<or> broll_descriptions = []")
  case True
  then show ?thesis by (auto simp: match_def)
next
  case False
  then have ne: "aroll_segments \<noteq> []" "broll_descriptions \<noteq> []" by simp_all
  from pa obtain A where A: "get_embeddings (map seg_text aroll_segments) = Inr A"
    and lA: "length A = length aroll_segments" and dA: "list_all (\<lambda>v. length v = d) A"
    by (auto simp: provider_ok_def split: sum.splits)
  from pb obtain B where B: "get_embeddings (map snd broll_descriptions) = Inr B"
    and lB: "length B = length broll_descriptions" and dB: "list_all (\<lambda>v. length v = d) B"
    by (auto simp: provider_ok_def split: sum.splits)
  have texts: "dict_get_all broll_descriptions (map fst broll_descriptions)
                 = Inr (map snd broll_descriptions)"
    using dict_get_all_keys [OF keys, of broll_descriptions] by simp
  from ne lA lB have "A \<noteq> []" "B \<noteq> []" by auto
  from calculate_similarity_matrix_shape [OF this dA dB] obtain M where
    M: "calculate_similarity_matrix A B = Inr M" and lM: "length M = length aroll_segments"
    and rM: "\<forall>row \<in> set M. length row = length (map fst broll_descriptions)"
    using lA lB by auto
  from select_best_matches_total [OF lM rM, of broll_descriptions cfg] obtain ms where
    ms: "select_best_matches cfg M aroll_segments (map fst broll_descriptions) broll_descriptions
           = Inr ms"
    and e: "(\<forall>row \<in> set M. \<forall>s \<in> set row. \<not> fl_ge s (Fin (similarity_threshold cfg))) \<longrightarrow> ms = []"
    by auto
  have m: "match cfg get_embeddings aroll_segments broll_descriptions
             = format_matches aroll_segments ms"
    using ne texts A B M ms by (simp add: match_def Let_def)
  have "\<forall>c \<in> set ms. segment_idx c < length aroll_segments"
    using select_best_matches_cand_ok [OF ms] by (simp add: cand_ok_def)
  from format_matches_total [OF this] obtain out where
    out: "format_matches aroll_segments ms = Inr out" by blast
  have 1: "\<not> isl (match cfg get_embeddings aroll_segments broll_descriptions)"
    by (simp add: m out)
  have 2: "match cfg get_embeddings aroll_segments broll_descriptions = Inr []"
    if "\<forall>A B M. get_embeddings (map seg_text aroll_segments) = Inr A \<and>
                   get_embeddings (map snd broll_descriptions) = Inr B \<and>
                   calculate_similarity_matrix A B = Inr M \<longrightarrow>
                   (\<forall>row \<in> set M. \<forall>s \<in> set row. \<not> fl_ge s (Fin (similarity_threshold cfg)))"
  proof -
    from that A B M have "\<forall>row \<in> set M. \<forall>s \<in> set row. \<not> fl_ge s (Fin (similarity_threshold cfg))"
      by blast
    with e have "ms = []" by blast
    then show ?thesis by (simp add: m)
  qed
  from False 1 2 show ?thesis by blast
qed

text \<open>
  The scenario of the specification: threshold 0.99, and a clip whose embedding is
  orthogonal to the narration's.
\<close>

theorem C8_match_raises_witness:
  "distinct (map fst [(''broll_1'', ''clip'')]) \<and>
   provider_ok (\<lambda>texts. Inr (map (\<lambda>t. if t = ''talk'' then [1, 0] else [0, 1]) texts))
     (map seg_text [\<lparr>start_time = 0, end_time = 40.2, seg_text = ''talk''\<rparr>]) 2 \<and>
   provider_ok (\<lambda>texts. Inr (map (\<lambda>t. if t = ''talk'' then [1, 0] else [0, 1]) texts))
     (map snd [(''broll_1'', ''clip'')]) 2 \<and>
   match \<lparr>similarity_threshold = 0.99, min_insertions = 3, max_insertions = 6\<rparr>
     (\<lambda>texts. Inr (map (\<lambda>t. if t = ''talk'' then [1, 0] else [0, 1]) texts))
     [\<lparr>start_time = 0, end_time = 40.2, seg_text = ''talk''\<rparr>]
     [(''broll_1'', ''clip'')] = Inr []"
  using C8_match_raises_only_on_empty_input
    [of "[(''broll_1'', ''clip'')]"
        "\<lambda>texts. Inr (map (\<lambda>t. if t = ''talk'' then [1, 0] else [0, 1]) texts)"
        "[\<lparr>start_time = 0, end_time = 40.2, seg_text = ''talk''\<rparr>]" 2
        "\<lparr>similarity_threshold = 0.99, min_insertions = 3, max_insertions = 6\<rparr>"]
  by (simp add: provider_ok_def match_def dict_get_def calculate_similarity_matrix_def
      well_shaped_def normalize_rows_def norm2_def np_div_def fl_dot_def
      select_best_matches_def potential_matches_def enumerate_eq_zip matrix_at_def
      sort_by_similarity_def run_passes_def initial_state_def Let_def)

end
